theory Spec2Isabelle
  imports Complex_Main "HOL-Library.Sublist"
begin

section \<open>Data model\<close>

text \<open>
  The file-ingestion and Drive-backup pipeline of the referral system:
  \<^verbatim>\<open>FileService\<close> (upload, validation, virus scan, hand-over to the Drive sync) and
  \<^verbatim>\<open>DriveService\<close> (folder provisioning, upload with retries, sync ledger, statistics).
  JavaScript strings and buffers are modelled as \<^typ>\<open>string\<close> (lists of 8-bit
  characters, so code units above 255 are not represented); database tables are lists of
  rows in insertion order, and a query or update of a table itself does not fail, except
  where a row is missing or a key is taken. Time stamps (\<^verbatim>\<open>virusScanAt\<close>,
  \<^verbatim>\<open>lastDriveSyncAt\<close>, \<^verbatim>\<open>uploadedAt\<close>) and log output are left out;
  \<^verbatim>\<open>deletedAt\<close> is kept as the flag \<open>deleted\<close>.
\<close>

type_synonym Buffer = string

datatype VirusScanStatus = ScanPending | Scanning | Clean | Infected | ScanError

datatype DriveSyncStatus = PENDING | SYNCING | SYNCED | FAILED

datatype DriveSyncAction = UPLOAD

record File =
  fileId :: string
  submissionId :: string
  filename :: string
  originalFilename :: string
  filePath :: string
  fileSize :: nat
  mimeType :: string
  virusScanStatus :: VirusScanStatus
  virusScanResult :: "string option"
  driveSyncStatus :: DriveSyncStatus
  driveSyncAttempts :: nat
  googleDriveId :: "string option"
  googleDriveUrl :: "string option"
  driveSyncError :: "string option"
  deleted :: bool

record Submission =
  subId :: string
  referenceId :: string
  googleDriveFolderId :: "string option"
  googleDriveFolderUrl :: "string option"
  subDriveSyncStatus :: DriveSyncStatus
  subDriveSyncError :: "string option"
  driveSyncRetries :: nat

record DriveSyncLog =
  logFileId :: string
  logAction :: DriveSyncAction
  logStatus :: string
  attemptNumber :: nat
  errorMessage :: "string option"

section \<open>Validator\<close>

definition MAX_FILE_SIZE :: nat where
  "MAX_FILE_SIZE = 50 * 1024 * 1024"

definition MAX_TOTAL_SIZE :: nat where
  "MAX_TOTAL_SIZE = 200 * 1024 * 1024"

definition MAX_FILES_PER_SUBMISSION :: nat where
  "MAX_FILES_PER_SUBMISSION = 10"

definition ALLOWED_MIMETYPES :: "string list" where
  "ALLOWED_MIMETYPES =
    [''application/vnd.openxmlformats-officedocument.wordprocessingml.document'',
     ''application/msword'',
     ''application/vnd.openxmlformats-officedocument.presentationml.presentation'',
     ''application/vnd.ms-powerpoint'',
     ''application/vnd.openxmlformats-officedocument.spreadsheetml.sheet'',
     ''application/vnd.ms-excel'',
     ''application/pdf'',
     ''image/jpeg'',
     ''image/png'',
     ''image/gif'',
     ''text/plain'']"

text \<open>The rows \<^verbatim>\<open>where: { submissionId, deletedAt: null }\<close> selects.\<close>

definition liveFilesOf :: "string \<Rightarrow> File list \<Rightarrow> File list" where
  "liveFilesOf sid fs = filter (\<lambda>f. submissionId f = sid \<and> \<not> deleted f) fs"

definition validateFileCount :: "File list \<Rightarrow> string \<Rightarrow> string + unit" where
  "validateFileCount fs sid =
     (if length (liveFilesOf sid fs) \<ge> MAX_FILES_PER_SUBMISSION
      then Inl ''Maximum 10 files allowed per submission''
      else Inr ())"

definition validateTotalSize :: "File list \<Rightarrow> string \<Rightarrow> nat \<Rightarrow> string + unit" where
  "validateTotalSize fs sid newFileSize =
     (let totalSize = foldl (\<lambda>sum f. sum + fileSize f) 0 (liveFilesOf sid fs) + newFileSize
      in if totalSize > MAX_TOTAL_SIZE
         then Inl ''Total file size exceeds maximum of 200MB''
         else Inr ())"

definition validateFileSize :: "nat \<Rightarrow> string + unit" where
  "validateFileSize sz =
     (if sz > MAX_FILE_SIZE then Inl ''File size exceeds maximum of 50MB'' else Inr ())"

definition validateMimeType :: "string \<Rightarrow> string + unit" where
  "validateMimeType mt =
     (if mt \<notin> set ALLOWED_MIMETYPES
      then Inl (''File type '' @ mt @ '' is not allowed'')
      else Inr ())"

subsection \<open>File names\<close>

text \<open>
  Node's \<^verbatim>\<open>path.extname\<close> and \<^verbatim>\<open>path.basename\<close> (POSIX flavour) are library
  functions; they are written out here as Node documents and implements them. Both work on
  the last component of the path, trailing separators ignored.
\<close>

definition lastPart :: "string \<Rightarrow> string" where
  "lastPart p =
     rev (takeWhile (\<lambda>c. c \<noteq> CHR ''/'') (dropWhile (\<lambda>c. c = CHR ''/'') (rev p)))"

text \<open>
  The extension runs from the last dot of the component to its end; it is empty when
  there is no dot, when the last dot is the component's first character, and for the
  component \<^verbatim>\<open>..\<close>.
\<close>

definition extname :: "string \<Rightarrow> string" where
  "extname p =
     (let b = lastPart p;
          afterDot = takeWhile (\<lambda>c. c \<noteq> CHR ''.'') (rev b);
          d = length b - Suc (length afterDot)
      in if CHR ''.'' \<notin> set b then []
         else if d = 0 then []
         else if b = ''..'' then []
         else drop d b)"

definition basename :: "string \<Rightarrow> string \<Rightarrow> string" where
  "basename p ext =
     (let b = lastPart p
      in if ext \<noteq> [] \<and> length ext \<le> length p then
           (if ext = p then []
            else if suffix ext b \<and> ext \<noteq> b then take (length b - length ext) b
            else b)
         else b)"

text \<open>
  The first replacement of \<^verbatim>\<open>sanitizeFilename\<close> is
  \<^verbatim>\<open>filename.replace(/[/\\\\0]/g, '')\<close>. Inside the character class the source text
  has a slash, two escaped backslashes and the digit \<^verbatim>\<open>0\<close>: the class is the set of
  the slash, the backslash and the character \<^verbatim>\<open>0\<close> (code 48), not the NUL character.
\<close>

definition inFirstClass :: "char \<Rightarrow> bool" where
  "inFirstClass c \<longleftrightarrow> c = CHR ''/'' \<or> c = CHR 0x5C \<or> c = CHR ''0''"

text \<open>The line terminators among the 8-bit characters: line feed and carriage return.\<close>

definition isLineTerminator :: "char \<Rightarrow> bool" where
  "isLineTerminator c \<longleftrightarrow> c = CHR 0x0A \<or> c = CHR 0x0D"

text \<open>
  The second replacement is \<^verbatim>\<open>sanitized.replace(/^\\.+/, '')\<close>: the pattern is the
  start anchor, an escaped backslash, and \<^verbatim>\<open>.+\<close> (one or more characters other than
  line terminators, greedy). It removes a leading backslash together with the rest of the
  first line, and matches nothing when the string does not start with a backslash followed
  by such a character.
\<close>

definition replaceLeading :: "string \<Rightarrow> string" where
  "replaceLeading s =
     (case s of
        c # d # rest \<Rightarrow>
          if c = CHR 0x5C \<and> \<not> isLineTerminator d
          then dropWhile (\<lambda>x. \<not> isLineTerminator x) (d # rest)
          else s
      | _ \<Rightarrow> s)"

definition sanitizeFilename :: "string \<Rightarrow> string" where
  "sanitizeFilename fname =
     (let sanitized1 = filter (\<lambda>c. \<not> inFirstClass c) fname;
          sanitized2 = replaceLeading sanitized1;
          maxLength = 255;
          sanitized3 =
            (if length sanitized2 > maxLength
             then (let ext = extname sanitized2;
                       name = basename sanitized2 ext
                   in take (maxLength - length ext) name @ ext)
             else sanitized2)
      in if sanitized3 = [] then ''file'' else sanitized3)"

section \<open>Persistent state and external collaborators\<close>

text \<open>
  The Google Drive behind \<^verbatim>\<open>this.drive\<close>: the folders and files it holds, in creation
  order, a log of the API calls made, and a script of coming faults (one entry per future
  API call; \<open>Some msg\<close> makes that call throw \<open>msg\<close>, an exhausted script means every
  call succeeds). A listing returns matching folders in creation order.
\<close>

record DriveFolder =
  folderId :: string
  folderName :: string
  folderParent :: string

record DriveFile =
  remoteId :: string
  remoteName :: string
  remoteMime :: string
  remoteParent :: string
  remoteBody :: Buffer

datatype ApiCall =
    FilesList string string
  | CreateFolder string string
  | CreateFile string string

record Drive =
  folders :: "DriveFolder list"
  uploads :: "DriveFile list"
  apiCalls :: "ApiCall list"
  faults :: "string option list"

record State =
  files :: "File list"
  submissions :: "Submission list"
  driveSyncLogs :: "DriveSyncLog list"
  ledgerFaults :: "bool list"
  disk :: "string \<rightharpoonup> Buffer"
  drive :: Drive
  admins :: "string list"
  alerts :: "(string \<times> string \<times> string) list"

text \<open>Decimal printing, used to name the objects the Drive creates.\<close>

definition digitChar :: "nat \<Rightarrow> char" where
  "digitChar n = ''0123456789'' ! n"

fun showNat :: "nat \<Rightarrow> string" where
  "showNat n =
     (if n < 10 then [digitChar n]
      else showNat (n div 10) @ [digitChar (n mod 10)])"

declare showNat.simps [simp del]

definition newDriveId :: "Drive \<Rightarrow> string" where
  "newDriveId d = ''drv-'' @ showNat (length (folders d) + length (uploads d))"

text \<open>One API call: log it, and consume one entry of the fault script.\<close>

definition apiCall :: "ApiCall \<Rightarrow> Drive \<Rightarrow> string option \<times> Drive" where
  "apiCall c d =
     (case faults d of
        [] \<Rightarrow> (None, d\<lparr>apiCalls := apiCalls d @ [c]\<rparr>)
      | x # rest \<Rightarrow> (x, d\<lparr>apiCalls := apiCalls d @ [c], faults := rest\<rparr>))"

subsection \<open>Table access\<close>

definition findFile :: "string \<Rightarrow> State \<Rightarrow> File option" where
  "findFile fid st = find (\<lambda>f. fileId f = fid) (files st)"

definition findSubmission :: "string \<Rightarrow> State \<Rightarrow> Submission option" where
  "findSubmission sid st = find (\<lambda>s. subId s = sid) (submissions st)"

text \<open>
  \<^verbatim>\<open>prisma.file.update({ where: { id }, data })\<close> throws when no row has the id.
\<close>

definition updateFile :: "string \<Rightarrow> (File \<Rightarrow> File) \<Rightarrow> State \<Rightarrow> string + State" where
  "updateFile fid upd st =
     (if \<exists>f \<in> set (files st). fileId f = fid
      then Inr (st\<lparr>files := map (\<lambda>f. if fileId f = fid then upd f else f) (files st)\<rparr>)
      else Inl ''Record to update not found'')"

definition updateSubmission ::
    "string \<Rightarrow> (Submission \<Rightarrow> Submission) \<Rightarrow> State \<Rightarrow> string + State" where
  "updateSubmission sid upd st =
     (if \<exists>s \<in> set (submissions st). subId s = sid
      then Inr (st\<lparr>submissions :=
                  map (\<lambda>s. if subId s = sid then upd s else s) (submissions st)\<rparr>)
      else Inl ''Record to update not found'')"

text \<open>
  \<^verbatim>\<open>prisma.file.create\<close>: the id is the primary key, so a row whose id is taken is
  refused.
\<close>

definition createFile :: "File \<Rightarrow> State \<Rightarrow> string + State" where
  "createFile row st =
     (if \<exists>f \<in> set (files st). fileId f = fileId row
      then Inl ''Unique constraint failed''
      else Inr (st\<lparr>files := files st @ [row]\<rparr>))"

section \<open>Local store and upload acceptance\<close>

text \<open>
  \<^verbatim>\<open>fs.promises.writeFile(filePath, buffer)\<close> opens the target itself (create or
  truncate) and writes into it. A failure either happens before the target exists
  (\<open>None\<close>) or after some prefix of the buffer has reached it (\<open>Some n\<close>).
\<close>

datatype WriteOutcome = WriteOk | WriteFails string "nat option"

definition writeFile ::
    "WriteOutcome \<Rightarrow> string \<Rightarrow> Buffer \<Rightarrow> (string \<rightharpoonup> Buffer) \<Rightarrow> string option \<times> (string \<rightharpoonup> Buffer)" where
  "writeFile outcome path buf d =
     (case outcome of
        WriteOk \<Rightarrow> (None, d(path \<mapsto> buf))
      | WriteFails msg None \<Rightarrow> (Some msg, d)
      | WriteFails msg (Some n) \<Rightarrow> (Some msg, d(path \<mapsto> take n buf)))"

record UploadFileDto =
  dtoSubmissionId :: string
  dtoOriginalFilename :: string
  dtoMimeType :: string
  dtoBuffer :: Buffer

text \<open>
  What one call of \<^verbatim>\<open>FileService.uploadFile\<close> takes from its surroundings: the
  upload directory, the fresh \<^verbatim>\<open>uuidv4()\<close>, the id the database gives the new row,
  and how the disk write goes.
\<close>

record UploadEnv =
  uploadDir :: string
  uuid :: string
  newFileId :: string
  writeOutcome :: WriteOutcome

text \<open>\<^verbatim>\<open>path.join\<close> of a directory (written without a trailing separator) and a
  file name that has no separator.\<close>

definition pathJoin :: "string \<Rightarrow> string \<Rightarrow> string" where
  "pathJoin dir name = dir @ ''/'' @ name"

text \<open>
  The row \<^verbatim>\<open>FileService.uploadFile\<close> passes to \<^verbatim>\<open>prisma.file.create\<close>: the
  sanitised name, the unique file name (the uuid with the extension of the sanitised name)
  and its path in the upload directory, both statuses pending.
\<close>

definition newFileRow :: "UploadEnv \<Rightarrow> UploadFileDto \<Rightarrow> File" where
  "newFileRow env dto =
     (let sanitizedFilename = sanitizeFilename (dtoOriginalFilename dto);
          fileExtension = extname sanitizedFilename;
          uniqueFilename = uuid env @ fileExtension;
          path = pathJoin (uploadDir env) uniqueFilename
      in \<lparr>fileId = newFileId env,
          submissionId = dtoSubmissionId dto,
          filename = uniqueFilename,
          originalFilename = sanitizedFilename,
          filePath = path,
          fileSize = length (dtoBuffer dto),
          mimeType = dtoMimeType dto,
          virusScanStatus = ScanPending,
          virusScanResult = None,
          driveSyncStatus = PENDING,
          driveSyncAttempts = 0,
          googleDriveId = None,
          googleDriveUrl = None,
          driveSyncError = None,
          deleted = False\<rparr>)"

text \<open>
  \<^verbatim>\<open>FileService.uploadFile\<close>: count, size and MIME type are validated, the name is
  sanitised, the buffer is written to its final path, and the row is created. The result
  carries the created row; the two background tasks the source then starts
  (\<^verbatim>\<open>scanFileAsync\<close>, \<^verbatim>\<open>uploadToDriveAsync\<close>) are the subject of the sections
  below.
\<close>

definition FileService_uploadFile ::
    "UploadEnv \<Rightarrow> UploadFileDto \<Rightarrow> State \<Rightarrow> (string + File) \<times> State" where
  "FileService_uploadFile env dto st =
     (case validateFileCount (files st) (dtoSubmissionId dto) of
        Inl e \<Rightarrow> (Inl e, st)
      | Inr _ \<Rightarrow>
     (case validateFileSize (length (dtoBuffer dto)) of
        Inl e \<Rightarrow> (Inl e, st)
      | Inr _ \<Rightarrow>
     (case validateMimeType (dtoMimeType dto) of
        Inl e \<Rightarrow> (Inl e, st)
      | Inr _ \<Rightarrow>
     (let row = newFileRow env dto
      in case writeFile (writeOutcome env) (filePath row) (dtoBuffer dto) (disk st) of
           (Some e, d') \<Rightarrow> (Inl e, st\<lparr>disk := d'\<rparr>)
         | (None, d') \<Rightarrow>
             (case createFile row (st\<lparr>disk := d'\<rparr>) of
                Inl e \<Rightarrow> (Inl e, st\<lparr>disk := d'\<rparr>)
              | Inr st' \<Rightarrow> (Inr row, st'))))))"

section \<open>Remote sync engine\<close>

subsection \<open>Folder resolution\<close>

text \<open>
  \<^verbatim>\<open>drive.files.list\<close> with the query of \<^verbatim>\<open>getOrCreateFolder\<close>: the folders of
  that name under that parent.
\<close>

definition foldersNamed :: "string \<Rightarrow> string \<Rightarrow> Drive \<Rightarrow> DriveFolder list" where
  "foldersNamed name parent d =
     filter (\<lambda>f. folderName f = name \<and> folderParent f = parent) (folders d)"

definition listFolders ::
    "string \<Rightarrow> string \<Rightarrow> Drive \<Rightarrow> (string + DriveFolder list) \<times> Drive" where
  "listFolders name parent d =
     (case apiCall (FilesList name parent) d of
        (Some e, d') \<Rightarrow> (Inl e, d')
      | (None, d') \<Rightarrow> (Inr (foldersNamed name parent d'), d'))"

definition createFolder :: "string \<Rightarrow> string \<Rightarrow> Drive \<Rightarrow> (string + string) \<times> Drive" where
  "createFolder name parent d =
     (case apiCall (CreateFolder name parent) d of
        (Some e, d') \<Rightarrow> (Inl e, d')
      | (None, d') \<Rightarrow>
          (let i = newDriveId d'
           in (Inr i, d'\<lparr>folders := folders d' @
                 [\<lparr>folderId = i, folderName = name, folderParent = parent\<rparr>]\<rparr>)))"

text \<open>
  \<^verbatim>\<open>getOrCreateFolder\<close> awaits the listing and then continues; the continuation is
  a definition of its own, so that two callers interleaved at the \<^verbatim>\<open>await\<close> can be
  written down.
\<close>

definition getOrCreateFolder_resume ::
    "DriveFolder list \<Rightarrow> string \<Rightarrow> string \<Rightarrow> Drive \<Rightarrow> (string + string) \<times> Drive" where
  "getOrCreateFolder_resume found name parent d =
     (case found of
        f # _ \<Rightarrow> (Inr (folderId f), d)
      | [] \<Rightarrow> createFolder name parent d)"

definition getOrCreateFolder ::
    "string \<Rightarrow> string \<Rightarrow> Drive \<Rightarrow> (string + string) \<times> Drive" where
  "getOrCreateFolder name parent d =
     (case listFolders name parent d of
        (Inl e, d') \<Rightarrow> (Inl e, d')
      | (Inr found, d') \<Rightarrow> getOrCreateFolder_resume found name parent d')"

text \<open>
  \<^verbatim>\<open>createSubmissionFolder\<close>; \<open>rootFolderId\<close> is \<^verbatim>\<open>this.rootFolderId\<close>, \<open>year\<close> and
  \<open>month\<close> are the two strings the clock gives
  (\<^verbatim>\<open>now.getFullYear().toString()\<close>, the long English month name). The body of
  the \<^verbatim>\<open>try\<close> comes first, then the function with its \<^verbatim>\<open>catch\<close>.
\<close>

definition createSubmissionFolder_try ::
    "string \<Rightarrow> string \<Rightarrow> string \<Rightarrow> string \<Rightarrow> string \<Rightarrow> State
      \<Rightarrow> (string + string \<times> string) \<times> State" where
  "createSubmissionFolder_try rootFolderId year month sid refId st =
     (case getOrCreateFolder year rootFolderId (drive st) of
        (Inl e, d1) \<Rightarrow> (Inl e, st\<lparr>drive := d1\<rparr>)
      | (Inr yearFolderId, d1) \<Rightarrow>
     (case getOrCreateFolder month yearFolderId d1 of
        (Inl e, d2) \<Rightarrow> (Inl e, st\<lparr>drive := d2\<rparr>)
      | (Inr monthFolderId, d2) \<Rightarrow>
     (case createFolder refId monthFolderId d2 of
        (Inl e, d3) \<Rightarrow> (Inl e, st\<lparr>drive := d3\<rparr>)
      | (Inr submissionFolderId, d3) \<Rightarrow>
          (let folderUrl = ''https://drive.google.com/drive/folders/'' @ submissionFolderId
           in case updateSubmission sid
                     (\<lambda>s. s\<lparr>googleDriveFolderId := Some submissionFolderId,
                             googleDriveFolderUrl := Some folderUrl,
                             subDriveSyncStatus := SYNCED\<rparr>)
                     (st\<lparr>drive := d3\<rparr>) of
                Inl e \<Rightarrow> (Inl e, st\<lparr>drive := d3\<rparr>)
              | Inr st' \<Rightarrow> (Inr (submissionFolderId, folderUrl), st')))))"

definition createSubmissionFolder ::
    "string \<Rightarrow> string \<Rightarrow> string \<Rightarrow> string \<Rightarrow> string \<Rightarrow> State
      \<Rightarrow> (string + string \<times> string) \<times> State" where
  "createSubmissionFolder rootFolderId year month sid refId st =
     (case createSubmissionFolder_try rootFolderId year month sid refId st of
        (Inr r, st') \<Rightarrow> (Inr r, st')
      | (Inl e, st') \<Rightarrow>
          (case updateSubmission sid
                  (\<lambda>s. s\<lparr>subDriveSyncStatus := FAILED,
                          subDriveSyncError := Some e,
                          driveSyncRetries := driveSyncRetries s + 1\<rparr>) st' of
             Inl e2 \<Rightarrow> (Inl e2, st')
           | Inr st'' \<Rightarrow> (Inl e, st'')))"

subsection \<open>Sync ledger\<close>

text \<open>
  \<^verbatim>\<open>logDriveSync\<close> appends one row; a failing insert is caught and dropped. The
  script \<open>ledgerFaults\<close> says, call by call, whether the insert throws.
\<close>

definition logDriveSync ::
    "string \<Rightarrow> DriveSyncAction \<Rightarrow> string \<Rightarrow> nat \<Rightarrow> string option \<Rightarrow> State \<Rightarrow> State" where
  "logDriveSync fid action status attempt err st =
     (let row = \<lparr>logFileId = fid, logAction = action, logStatus = status,
                 attemptNumber = attempt, errorMessage = err\<rparr>
      in case ledgerFaults st of
           [] \<Rightarrow> st\<lparr>driveSyncLogs := driveSyncLogs st @ [row]\<rparr>
         | False # rest \<Rightarrow> st\<lparr>driveSyncLogs := driveSyncLogs st @ [row], ledgerFaults := rest\<rparr>
         | True # rest \<Rightarrow> st\<lparr>ledgerFaults := rest\<rparr>)"

subsection \<open>Upload with retries\<close>

record DriveUploadOptions =
  optSubmissionId :: string
  optFileId :: string
  optFilePath :: string
  optFilename :: string
  optMimeType :: string

record DriveUploadResult =
  resFileId :: string
  webViewLink :: string
  success :: bool

definition webViewLinkOf :: "string \<Rightarrow> string" where
  "webViewLinkOf i = ''https://drive.google.com/file/d/'' @ i @ ''/view''"

text \<open>
  \<^verbatim>\<open>performUpload\<close>: one \<^verbatim>\<open>drive.files.create\<close> with the local file as body; a
  local file that is gone makes the read stream, and with it the call, fail.
\<close>

definition performUpload ::
    "string \<Rightarrow> string \<Rightarrow> string \<Rightarrow> string \<Rightarrow> State \<Rightarrow> (string + string \<times> string) \<times> State" where
  "performUpload path name mime parent st =
     (case apiCall (CreateFile name parent) (drive st) of
        (Some e, d') \<Rightarrow> (Inl e, st\<lparr>drive := d'\<rparr>)
      | (None, d') \<Rightarrow>
          (case disk st path of
             None \<Rightarrow> (Inl ''ENOENT: no such file or directory'', st\<lparr>drive := d'\<rparr>)
           | Some body \<Rightarrow>
               (let i = newDriveId d'
                in (Inr (i, webViewLinkOf i),
                    st\<lparr>drive := d'\<lparr>uploads := uploads d' @
                         [\<lparr>remoteId = i, remoteName = name, remoteMime = mime,
                           remoteParent = parent, remoteBody = body\<rparr>]\<rparr>\<rparr>))))"

definition maxRetries :: nat where
  "maxRetries = 3"

text \<open>The body of the \<^verbatim>\<open>try\<close> of one attempt.\<close>

definition tryAttempt ::
    "DriveUploadOptions \<Rightarrow> string \<Rightarrow> nat \<Rightarrow> State \<Rightarrow> (string + DriveUploadResult) \<times> State" where
  "tryAttempt opts folder attempt st =
     (case updateFile (optFileId opts)
             (\<lambda>f. f\<lparr>driveSyncStatus := SYNCING, driveSyncAttempts := attempt\<rparr>) st of
        Inl e \<Rightarrow> (Inl e, st)
      | Inr st1 \<Rightarrow>
          (let st2 = logDriveSync (optFileId opts) UPLOAD ''started'' attempt None st1
           in case performUpload (optFilePath opts) (optFilename opts) (optMimeType opts)
                     folder st2 of
                (Inl e, st3) \<Rightarrow> (Inl e, st3)
              | (Inr (rid, link), st3) \<Rightarrow>
                  (case updateFile (optFileId opts)
                          (\<lambda>f. f\<lparr>googleDriveId := Some rid,
                                  googleDriveUrl := Some link,
                                  driveSyncStatus := SYNCED,
                                  driveSyncError := None\<rparr>) st3 of
                     Inl e \<Rightarrow> (Inl e, st3)
                   | Inr st4 \<Rightarrow>
                       (Inr \<lparr>resFileId = rid, webViewLink = link, success = True\<rparr>,
                        logDriveSync (optFileId opts) UPLOAD ''success'' attempt None st4))))"

text \<open>What follows the loop: the row is marked failed and the last error is thrown.\<close>

definition allRetriesFailed ::
    "DriveUploadOptions \<Rightarrow> string option \<Rightarrow> State \<Rightarrow> (string + DriveUploadResult) \<times> State" where
  "allRetriesFailed opts lastError st =
     (let msg = (case lastError of
                   None \<Rightarrow> ''Upload failed after retries''
                 | Some m \<Rightarrow> if m = [] then ''Upload failed after retries'' else m)
      in case updateFile (optFileId opts)
                (\<lambda>f. f\<lparr>driveSyncStatus := FAILED, driveSyncError := Some msg\<rparr>) st of
           Inl e \<Rightarrow> (Inl e, st)
         | Inr st' \<Rightarrow>
             (Inl (case lastError of None \<Rightarrow> ''Upload failed after retries'' | Some m \<Rightarrow> m),
              st'))"

text \<open>
  The retry loop, from attempt \<open>attempt\<close> on. The pause between two attempts
  (exponential backoff with jitter, at most ten seconds) changes no state and is left out.
\<close>

function uploadAttempts ::
    "DriveUploadOptions \<Rightarrow> string \<Rightarrow> nat \<Rightarrow> string option \<Rightarrow> State
      \<Rightarrow> (string + DriveUploadResult) \<times> State" where
  "uploadAttempts opts folder attempt lastError st =
     (if attempt \<le> maxRetries then
        (case tryAttempt opts folder attempt st of
           (Inr result, st') \<Rightarrow> (Inr result, st')
         | (Inl e, st') \<Rightarrow>
             uploadAttempts opts folder (attempt + 1) (Some e)
               (logDriveSync (optFileId opts) UPLOAD ''failed'' attempt (Some e) st'))
      else allRetriesFailed opts lastError st)"
  by pat_completeness auto
termination
  by (relation "measure (\<lambda>(opts, folder, attempt, lastError, st). Suc maxRetries - attempt)")
     auto

declare uploadAttempts.simps [simp del]

text \<open>The folder check of \<^verbatim>\<open>uploadFile\<close>: a missing submission, a null id and the
  empty string all count as no folder.\<close>

definition submissionFolder :: "string \<Rightarrow> State \<Rightarrow> string option" where
  "submissionFolder sid st =
     (case findSubmission sid st of
        None \<Rightarrow> None
      | Some s \<Rightarrow>
          (case googleDriveFolderId s of
             None \<Rightarrow> None
           | Some folder \<Rightarrow> if folder = [] then None else Some folder))"

definition DriveService_uploadFile ::
    "DriveUploadOptions \<Rightarrow> State \<Rightarrow> (string + DriveUploadResult) \<times> State" where
  "DriveService_uploadFile opts st =
     (case submissionFolder (optSubmissionId opts) st of
        None \<Rightarrow> (Inl ''Submission Drive folder not found'', st)
      | Some folder \<Rightarrow> uploadAttempts opts folder 1 None st)"

definition optionsOf :: "File \<Rightarrow> DriveUploadOptions" where
  "optionsOf f =
     \<lparr>optSubmissionId = submissionId f, optFileId = fileId f, optFilePath = filePath f,
      optFilename = originalFilename f, optMimeType = mimeType f\<rparr>"

definition retryFailedSync :: "string \<Rightarrow> State \<Rightarrow> (string + unit) \<times> State" where
  "retryFailedSync fid st =
     (case findFile fid st of
        None \<Rightarrow> (Inl ''File not found'', st)
      | Some f \<Rightarrow>
          if driveSyncStatus f \<noteq> FAILED then (Inl ''File is not in failed state'', st)
          else (case DriveService_uploadFile (optionsOf f) st of
                  (Inl e, st') \<Rightarrow> (Inl e, st')
                | (Inr _, st') \<Rightarrow> (Inr (), st')))"

definition retryDriveSync :: "string \<Rightarrow> State \<Rightarrow> (string + unit) \<times> State" where
  "retryDriveSync fid st =
     (case findFile fid st of
        None \<Rightarrow> (Inl ''File not found'', st)
      | Some f \<Rightarrow>
          if driveSyncStatus f \<noteq> FAILED then (Inl ''File is not in failed state'', st)
          else retryFailedSync fid st)"

subsection \<open>Statistics\<close>

text \<open>
  The numbers of \<^verbatim>\<open>getSyncStats\<close> are JavaScript numbers, that is IEEE 754 doubles. A
  finite double is modelled by the rational number it denotes, and the result of every
  arithmetic operation is rounded to the nearest double, a tie going to the even
  significand. \<open>roundDouble\<close> does this rounding: \<open>scaleUp\<close> doubles the argument until
  it lies in the binade \<open>[2^52, 2^53)\<close> of the 53-bit significands, or until the exponent
  \<open>-1074\<close> of the subnormal doubles is reached, and there the argument is rounded to an
  integer. Arguments of \<open>2^53\<close> and more are outside this model: the numbers rounded in
  \<^verbatim>\<open>getSyncStats\<close> are a ratio of at most 1, a percentage and a decimal of
  about 100 at most. The row counts themselves are integers below \<open>2^53\<close>, which doubles
  hold exactly.
\<close>

function scaleUp :: "rat \<Rightarrow> int \<Rightarrow> rat \<times> int" where
  "scaleUp x e = (if x < 2 ^ 52 \<and> - 1074 < e then scaleUp (2 * x) (e - 1) else (x, e))"
  by pat_completeness auto
termination
  by (relation "measure (\<lambda>(x, e). nat (e + 1074))") auto

declare scaleUp.simps [simp del]

definition roundEven :: "rat \<Rightarrow> int" where
  "roundEven x =
     (let f = \<lfloor>x\<rfloor>; d = x - of_int f
      in if d < 1 / 2 then f else if 1 / 2 < d then f + 1 else if even f then f else f + 1)"

definition roundPos :: "rat \<Rightarrow> rat" where
  "roundPos x = (case scaleUp x 0 of (y, e) \<Rightarrow> of_int (roundEven y) * 2 powi e)"

definition roundDouble :: "rat \<Rightarrow> rat" where
  "roundDouble x = (if x = 0 then 0 else if x < 0 then - roundPos (- x) else roundPos x)"

text \<open>The operators \<^verbatim>\<open>/\<close> and \<^verbatim>\<open>*\<close> on numbers.\<close>

definition numDiv :: "rat \<Rightarrow> rat \<Rightarrow> rat" where
  "numDiv a b = roundDouble (a / b)"

definition numTimes :: "rat \<Rightarrow> rat \<Rightarrow> rat" where
  "numTimes a b = roundDouble (a * b)"

text \<open>
  \<^verbatim>\<open>x.toFixed(2)\<close> is the decimal with two fraction digits nearest to the exact value
  of the double \<open>x\<close>, the one of larger magnitude on a tie; the string is represented by
  its number of hundredths (\<^verbatim>\<open>'14.37'\<close> by 1437, \<^verbatim>\<open>'0'\<close> by 0). \<^verbatim>\<open>parseFloat\<close>
  reads such a string back as the nearest double.
\<close>

definition toFixed2 :: "rat \<Rightarrow> int" where
  "toFixed2 x = (if x < 0 then - \<lfloor>- x * 100 + 1 / 2\<rfloor> else \<lfloor>x * 100 + 1 / 2\<rfloor>)"

definition parseFloat2 :: "int \<Rightarrow> rat" where
  "parseFloat2 n = roundDouble (of_int n / 100)"

record SyncStats =
  totalFiles :: nat
  syncedFiles :: nat
  failedFiles :: nat
  pendingFiles :: nat
  syncingFiles :: int
  syncSuccessRate :: rat

definition countStatus :: "DriveSyncStatus \<Rightarrow> State \<Rightarrow> nat" where
  "countStatus s st = length (filter (\<lambda>f. driveSyncStatus f = s) (files st))"

text \<open>
  \<^verbatim>\<open>DriveService.getSyncStats\<close>. The total is \<^verbatim>\<open>prisma.file.count()\<close>, with no filter
  on \<^verbatim>\<open>deletedAt\<close>.
\<close>

definition getSyncStats :: "State \<Rightarrow> SyncStats" where
  "getSyncStats st =
     (let total = length (files st);
          synced = countStatus SYNCED st;
          failed = countStatus FAILED st;
          pending = countStatus PENDING st;
          rate = (if total > 0
                  then toFixed2 (numTimes (numDiv (of_nat synced) (of_nat total)) 100)
                  else 0)
      in \<lparr>totalFiles = total,
          syncedFiles = synced,
          failedFiles = failed,
          pendingFiles = pending,
          syncingFiles = int total - int synced - int failed - int pending,
          syncSuccessRate = parseFloat2 rate\<rparr>)"

subsection \<open>Notification collaborator\<close>

text \<open>
  \<^verbatim>\<open>NotificationService.sendDriveSyncFailureAlert\<close>: one alert (e-mail and in-app
  notification) per active administrator, recorded as administrator, reference id and
  error text; nothing when the submission is unknown. A delivery that fails is not
  modelled. No function of \<^verbatim>\<open>FileService\<close> or \<^verbatim>\<open>DriveService\<close> calls it.
\<close>

definition sendDriveSyncFailureAlert :: "string \<Rightarrow> string \<Rightarrow> State \<Rightarrow> State" where
  "sendDriveSyncFailureAlert sid err st =
     (case findSubmission sid st of
        None \<Rightarrow> st
      | Some s \<Rightarrow> st\<lparr>alerts := alerts st @ map (\<lambda>a. (a, referenceId s, err)) (admins st)\<rparr>)"

section \<open>Scan gate\<close>

text \<open>
  What \<^verbatim>\<open>scanWithClamAV\<close> hands back to \<^verbatim>\<open>scanFileAsync\<close>: a positive match
  (with the signature, if one was parsed), a clean result, or an exception. The scanner
  subprocess itself is outside the model.
\<close>

datatype ClamResult = ClamInfected "string option" | ClamClean | ClamThrows string

text \<open>\<^verbatim>\<open>fs.unlink\<close>: fails on a missing file, or as the environment says.\<close>

definition unlinkFile :: "string option \<Rightarrow> string \<Rightarrow> State \<Rightarrow> string option \<times> State" where
  "unlinkFile fault path st =
     (case fault of
        Some e \<Rightarrow> (Some e, st)
      | None \<Rightarrow>
          (case disk st path of
             None \<Rightarrow> (Some ''ENOENT: no such file or directory'', st)
           | Some _ \<Rightarrow> (None, st\<lparr>disk := (disk st)(path := None)\<rparr>)))"

text \<open>
  Where the scan task of one file stands. \<^verbatim>\<open>scanFileAsync\<close> is cut at its
  \<^verbatim>\<open>await\<close>s: marking the row as scanning, taking the verdict, deleting an infected
  file. Each piece returns the position reached and the new state; an exception inside
  the \<^verbatim>\<open>try\<close> runs the \<^verbatim>\<open>catch\<close>, which marks the row as scan error.
\<close>

datatype ScanPc =
    ScanIdle
  | ScanQueued string
  | ScanAwaitResult string
  | ScanUnlinking string
  | ScanFinished

definition scanCatch :: "string \<Rightarrow> string \<Rightarrow> State \<Rightarrow> State" where
  "scanCatch fid msg st =
     (case updateFile fid
             (\<lambda>f. f\<lparr>virusScanStatus := ScanError, virusScanResult := Some msg\<rparr>) st of
        Inl _ \<Rightarrow> st
      | Inr st' \<Rightarrow> st')"

definition scanBegin :: "string \<Rightarrow> string \<Rightarrow> State \<Rightarrow> ScanPc \<times> State" where
  "scanBegin fid path st =
     (case updateFile fid (\<lambda>f. f\<lparr>virusScanStatus := Scanning\<rparr>) st of
        Inl e \<Rightarrow> (ScanFinished, scanCatch fid e st)
      | Inr st' \<Rightarrow> (ScanAwaitResult path, st'))"

definition scanVerdict :: "string \<Rightarrow> string \<Rightarrow> ClamResult \<Rightarrow> State \<Rightarrow> ScanPc \<times> State" where
  "scanVerdict fid path clam st =
     (case clam of
        ClamThrows e \<Rightarrow> (ScanFinished, scanCatch fid e st)
      | ClamInfected virus \<Rightarrow>
          (case updateFile fid
                  (\<lambda>f. f\<lparr>virusScanStatus := Infected,
                          virusScanResult :=
                            Some (case virus of
                                    None \<Rightarrow> ''Malware detected''
                                  | Some v \<Rightarrow> if v = [] then ''Malware detected'' else v)\<rparr>)
                  st of
             Inl e \<Rightarrow> (ScanFinished, scanCatch fid e st)
           | Inr st' \<Rightarrow> (ScanUnlinking path, st'))
      | ClamClean \<Rightarrow>
          (case updateFile fid
                  (\<lambda>f. f\<lparr>virusScanStatus := Clean,
                          virusScanResult := Some ''No threats detected''\<rparr>) st of
             Inl e \<Rightarrow> (ScanFinished, scanCatch fid e st)
           | Inr st' \<Rightarrow> (ScanFinished, st')))"

definition scanUnlink :: "string \<Rightarrow> string \<Rightarrow> string option \<Rightarrow> State \<Rightarrow> ScanPc \<times> State" where
  "scanUnlink fid path fault st =
     (case unlinkFile fault path st of
        (Some e, st') \<Rightarrow> (ScanFinished, scanCatch fid e st')
      | (None, st') \<Rightarrow> (ScanFinished, st'))"

text \<open>The whole task, run without interruption.\<close>

definition scanFileAsync ::
    "string \<Rightarrow> string \<Rightarrow> ClamResult \<Rightarrow> string option \<Rightarrow> State \<Rightarrow> State" where
  "scanFileAsync fid path clam fault st =
     (case scanBegin fid path st of
        (ScanAwaitResult _, st1) \<Rightarrow>
          (case scanVerdict fid path clam st1 of
             (ScanUnlinking _, st2) \<Rightarrow> snd (scanUnlink fid path fault st2)
           | (_, st2) \<Rightarrow> st2)
      | (_, st1) \<Rightarrow> st1)"

section \<open>Hand-over from scan to sync\<close>

text \<open>
  \<^verbatim>\<open>uploadToDriveAsync\<close> is started right after \<^verbatim>\<open>scanFileAsync\<close>, without
  waiting for it. It reads the row, polls it while the scan is pending or running (at
  most 30 times, one second apart), reads it once more, and calls the Drive upload only
  if that last read shows a clean scan. Each database read is one step of the task.
\<close>

datatype SyncPc =
    SyncIdle
  | SyncQueued
  | SyncPolling nat
  | SyncRefetch
  | SyncCleared File
  | SyncFinished

definition awaitsScan :: "VirusScanStatus \<Rightarrow> bool" where
  "awaitsScan s \<longleftrightarrow> s = ScanPending \<or> s = Scanning"

definition scanSettled :: "File option \<Rightarrow> bool" where
  "scanSettled r =
     (case r of
        None \<Rightarrow> False
      | Some f \<Rightarrow> virusScanStatus f = Clean \<or> virusScanStatus f = ScanError)"

definition pollCeiling :: nat where
  "pollCeiling = 30"

definition syncFirstRead :: "File option \<Rightarrow> SyncPc" where
  "syncFirstRead r =
     (case r of
        None \<Rightarrow> SyncFinished
      | Some f \<Rightarrow> if awaitsScan (virusScanStatus f) then SyncPolling 0 else SyncRefetch)"

text \<open>Iteration \<open>i\<close> of the loop, after its sleep: the read, the \<^verbatim>\<open>break\<close>, and
  the loop test for the next iteration.\<close>

definition syncPoll :: "nat \<Rightarrow> File option \<Rightarrow> SyncPc" where
  "syncPoll i r =
     (if scanSettled r then SyncRefetch
      else if Suc i < pollCeiling then SyncPolling (Suc i)
      else SyncRefetch)"

definition syncRefetch :: "File option \<Rightarrow> SyncPc" where
  "syncRefetch r =
     (case r of
        None \<Rightarrow> SyncFinished
      | Some f \<Rightarrow> if virusScanStatus f \<noteq> Clean then SyncFinished else SyncCleared f)"

definition syncRank :: "SyncPc \<Rightarrow> nat" where
  "syncRank pc =
     (case pc of
        SyncQueued \<Rightarrow> pollCeiling + 3
      | SyncPolling i \<Rightarrow> Suc (Suc (pollCeiling - i))
      | SyncRefetch \<Rightarrow> 1
      | _ \<Rightarrow> 0)"

text \<open>
  The reads of one task, in order: \<open>obs k\<close> is what the \<open>k\<close>-th
  \<^verbatim>\<open>findUnique\<close> of the task returns (the scan task writes the row in between).
  \<open>runSyncTask\<close> runs the task from read \<open>k\<close> on, up to its decision.
\<close>

function runSyncTask :: "(nat \<Rightarrow> File option) \<Rightarrow> nat \<Rightarrow> SyncPc \<Rightarrow> SyncPc" where
  "runSyncTask obs k pc =
     (case pc of
        SyncQueued \<Rightarrow> runSyncTask obs (Suc k) (syncFirstRead (obs k))
      | SyncPolling i \<Rightarrow> runSyncTask obs (Suc k) (syncPoll i (obs k))
      | SyncRefetch \<Rightarrow> syncRefetch (obs k)
      | _ \<Rightarrow> pc)"
  by pat_completeness auto
termination
  by (relation "measure (\<lambda>(obs, k, pc). syncRank pc)")
     (auto simp: syncRank_def syncFirstRead_def syncPoll_def pollCeiling_def
           split: option.splits)

declare runSyncTask.simps [simp del]

text \<open>The task as a whole; an error of the Drive upload is caught and logged only.\<close>

definition uploadToDriveAsync :: "(nat \<Rightarrow> File option) \<Rightarrow> State \<Rightarrow> State" where
  "uploadToDriveAsync obs st =
     (case runSyncTask obs 0 SyncQueued of
        SyncCleared f \<Rightarrow> snd (DriveService_uploadFile (optionsOf f) st)
      | _ \<Rightarrow> st)"

section \<open>Other operations on files\<close>

definition deleteFile :: "string \<Rightarrow> string option \<Rightarrow> State \<Rightarrow> (string + unit) \<times> State" where
  "deleteFile fid fault st =
     (case findFile fid st of
        None \<Rightarrow> (Inl ''File not found'', st)
      | Some f \<Rightarrow>
          (case updateFile fid (\<lambda>x. x\<lparr>deleted := True\<rparr>) st of
             Inl e \<Rightarrow> (Inl e, st)
           | Inr st1 \<Rightarrow>
               (Inr (), if disk st1 (filePath f) \<noteq> None
                        then snd (unlinkFile fault (filePath f) st1)
                        else st1)))"

section \<open>The pipeline as a transition system\<close>

text \<open>
  The database, disk and Drive together with the position of every file's scan task and
  sync task. One step is one uninterrupted piece of one operation; the pieces of different
  tasks interleave freely. The Drive upload of a file writes only that file's sync fields
  and the ledger, so it is taken as one step.
\<close>

record System =
  db :: State
  scanPc :: "string \<Rightarrow> ScanPc"
  syncPc :: "string \<Rightarrow> SyncPc"

definition initial :: "System \<Rightarrow> bool" where
  "initial S \<longleftrightarrow>
     files (db S) = [] \<and> driveSyncLogs (db S) = [] \<and>
     (\<forall>fid. scanPc S fid = ScanIdle \<and> syncPc S fid = SyncIdle)"

inductive step :: "System \<Rightarrow> System \<Rightarrow> bool" where
  accept_ok:
    "FileService_uploadFile env dto (db S) = (Inr f, st') \<Longrightarrow>
     step S (S\<lparr>db := st',
               scanPc := (scanPc S)(fileId f := ScanQueued (filePath f)),
               syncPc := (syncPc S)(fileId f := SyncQueued)\<rparr>)"
| accept_rejected:
    "FileService_uploadFile env dto (db S) = (Inl e, st') \<Longrightarrow> step S (S\<lparr>db := st'\<rparr>)"
| scan_begin:
    "scanPc S fid = ScanQueued path \<Longrightarrow> scanBegin fid path (db S) = (pc, st') \<Longrightarrow>
     step S (S\<lparr>db := st', scanPc := (scanPc S)(fid := pc)\<rparr>)"
| scan_verdict:
    "scanPc S fid = ScanAwaitResult path \<Longrightarrow> scanVerdict fid path clam (db S) = (pc, st') \<Longrightarrow>
     step S (S\<lparr>db := st', scanPc := (scanPc S)(fid := pc)\<rparr>)"
| scan_unlink:
    "scanPc S fid = ScanUnlinking path \<Longrightarrow> scanUnlink fid path fault (db S) = (pc, st') \<Longrightarrow>
     step S (S\<lparr>db := st', scanPc := (scanPc S)(fid := pc)\<rparr>)"
| sync_first_read:
    "syncPc S fid = SyncQueued \<Longrightarrow>
     step S (S\<lparr>syncPc := (syncPc S)(fid := syncFirstRead (findFile fid (db S)))\<rparr>)"
| sync_poll:
    "syncPc S fid = SyncPolling i \<Longrightarrow>
     step S (S\<lparr>syncPc := (syncPc S)(fid := syncPoll i (findFile fid (db S)))\<rparr>)"
| sync_refetch:
    "syncPc S fid = SyncRefetch \<Longrightarrow>
     step S (S\<lparr>syncPc := (syncPc S)(fid := syncRefetch (findFile fid (db S)))\<rparr>)"
| sync_upload:
    "syncPc S fid = SyncCleared f \<Longrightarrow> DriveService_uploadFile (optionsOf f) (db S) = (r, st') \<Longrightarrow>
     step S (S\<lparr>db := st', syncPc := (syncPc S)(fid := SyncFinished)\<rparr>)"
| retry:
    "retryDriveSync fid (db S) = (r, st') \<Longrightarrow> step S (S\<lparr>db := st'\<rparr>)"
| delete:
    "deleteFile fid fault (db S) = (r, st') \<Longrightarrow> step S (S\<lparr>db := st'\<rparr>)"
| provision:
    "createSubmissionFolder rootFolderId year month sid refId (db S) = (r, st') \<Longrightarrow>
     step S (S\<lparr>db := st'\<rparr>)"
| submission_created:
    "\<forall>s \<in> set (submissions (db S)). subId s \<noteq> subId new \<Longrightarrow>
     step S (S\<lparr>db := (db S)\<lparr>submissions := submissions (db S) @ [new]\<rparr>\<rparr>)"
| environment:
    "step S (S\<lparr>db := (db S)\<lparr>ledgerFaults := lf,
                            drive := (drive (db S))\<lparr>faults := df\<rparr>,
                            admins := adm\<rparr>\<rparr>)"

inductive reachable :: "System \<Rightarrow> bool" where
  reachable_init: "initial S \<Longrightarrow> reachable S"
| reachable_step: "reachable S \<Longrightarrow> step S S' \<Longrightarrow> reachable S'"

section \<open>Frame conditions\<close>

text \<open>
  What the sync engine may do to a row while working on file \<open>fid\<close>: rows of other
  files stay as they are, and a row of \<open>fid\<close> keeps its identity, its place on disk
  and everything the scan gate owns.
\<close>

definition sameOutsideSync :: "File \<Rightarrow> File \<Rightarrow> bool" where
  "sameOutsideSync f f' \<longleftrightarrow>
     fileId f' = fileId f \<and> submissionId f' = submissionId f \<and>
     filePath f' = filePath f \<and> virusScanStatus f' = virusScanStatus f \<and>
     virusScanResult f' = virusScanResult f \<and> deleted f' = deleted f"

definition syncTouch :: "string \<Rightarrow> File \<Rightarrow> File \<Rightarrow> bool" where
  "syncTouch fid f f' \<longleftrightarrow> sameOutsideSync f f' \<and> (fileId f \<noteq> fid \<longrightarrow> f' = f)"

definition hasFile :: "string \<Rightarrow> State \<Rightarrow> bool" where
  "hasFile fid st \<longleftrightarrow> (\<exists>f \<in> set (files st). fileId f = fid)"

text \<open>
  What a call of the sync engine for file \<open>fid\<close> may change in the state: the sync
  fields of that file, the ledger (rows for that file only, appended), and the Drive's
  uploaded files, call log and fault script. Submissions, remote folders, the local disk
  and the alerts stay untouched.
\<close>

definition syncFrame :: "string \<Rightarrow> State \<Rightarrow> State \<Rightarrow> bool" where
  "syncFrame fid st st' \<longleftrightarrow>
     submissions st' = submissions st \<and>
     folders (drive st') = folders (drive st) \<and>
     disk st' = disk st \<and>
     alerts st' = alerts st \<and>
     admins st' = admins st \<and>
     list_all2 (syncTouch fid) (files st) (files st') \<and>
     (\<exists>new. driveSyncLogs st' = driveSyncLogs st @ new \<and> (\<forall>l \<in> set new. logFileId l = fid))"

text \<open>
  Reads of the sync task: one that finds the scan pending or running, and one that finds
  it clean. \<open>readsLeft\<close> bounds the number of reads a task still makes from a
  position.
\<close>

definition waitingRead :: "File option \<Rightarrow> bool" where
  "waitingRead r = (case r of None \<Rightarrow> False | Some f \<Rightarrow> awaitsScan (virusScanStatus f))"

definition cleanRead :: "File option \<Rightarrow> bool" where
  "cleanRead r = (case r of None \<Rightarrow> False | Some f \<Rightarrow> virusScanStatus f = Clean)"

definition readsLeft :: "SyncPc \<Rightarrow> nat" where
  "readsLeft pc =
     (case pc of
        SyncQueued \<Rightarrow> pollCeiling + 2
      | SyncPolling i \<Rightarrow> 2 + (pollCeiling - Suc i)
      | SyncRefetch \<Rightarrow> 1
      | _ \<Rightarrow> 0)"

text \<open>
  What a piece of the scan task of file \<open>fid\<close> may change: the scan fields of that
  file (and the disk); \<open>fin\<close> says that the piece ends the task, which it must do
  when it marks the file clean.
\<close>

definition scanTouch :: "string \<Rightarrow> bool \<Rightarrow> File \<Rightarrow> File \<Rightarrow> bool" where
  "scanTouch fid fin f f' \<longleftrightarrow>
     fileId f' = fileId f \<and> driveSyncStatus f' = driveSyncStatus f \<and>
     (fileId f \<noteq> fid \<longrightarrow> f' = f) \<and>
     (virusScanStatus f' = Clean \<longrightarrow> fin \<or> f' = f)"

definition scanFrame :: "string \<Rightarrow> bool \<Rightarrow> State \<Rightarrow> State \<Rightarrow> bool" where
  "scanFrame fid fin st st' \<longleftrightarrow>
     driveSyncLogs st' = driveSyncLogs st \<and>
     list_all2 (scanTouch fid fin) (files st) (files st')"

text \<open>An operation that leaves the identity and both statuses of every row, and the
  ledger, as they are.\<close>

definition keepsStatus :: "File \<Rightarrow> File \<Rightarrow> bool" where
  "keepsStatus f f' \<longleftrightarrow>
     fileId f' = fileId f \<and> virusScanStatus f' = virusScanStatus f \<and>
     driveSyncStatus f' = driveSyncStatus f"

definition statusFrame :: "State \<Rightarrow> State \<Rightarrow> bool" where
  "statusFrame st st' \<longleftrightarrow>
     driveSyncLogs st' = driveSyncLogs st \<and> list_all2 keepsStatus (files st) (files st')"

text \<open>
  The invariant of the pipeline. A row that has left PENDING has a clean scan, and a row
  with a clean scan has a finished scan task; a sync task cleared for upload belongs to a
  stored file with a clean scan; every ledger row belongs to a stored file with a clean
  scan; ids are unique.
\<close>

definition rowOk :: "(string \<Rightarrow> ScanPc) \<Rightarrow> File \<Rightarrow> bool" where
  "rowOk sc f \<longleftrightarrow>
     (driveSyncStatus f \<noteq> PENDING \<longrightarrow> virusScanStatus f = Clean) \<and>
     (virusScanStatus f = Clean \<longrightarrow> sc (fileId f) = ScanFinished)"

definition hasCleanFile :: "string \<Rightarrow> State \<Rightarrow> bool" where
  "hasCleanFile fid st \<longleftrightarrow> (\<exists>f \<in> set (files st). fileId f = fid \<and> virusScanStatus f = Clean)"

definition gateInv :: "System \<Rightarrow> bool" where
  "gateInv S \<longleftrightarrow>
     distinct (map fileId (files (db S))) \<and>
     (\<forall>f \<in> set (files (db S)). rowOk (scanPc S) f) \<and>
     (\<forall>fid f0. syncPc S fid = SyncCleared f0 \<longrightarrow> fileId f0 = fid \<and> hasCleanFile fid (db S)) \<and>
     (\<forall>l \<in> set (driveSyncLogs (db S)). hasCleanFile (logFileId l) (db S))"

section \<open>Concrete inputs\<close>

definition emptyDrive :: Drive where
  "emptyDrive = \<lparr>folders = [], uploads = [], apiCalls = [], faults = []\<rparr>"

definition emptyState :: State where
  "emptyState =
     \<lparr>files = [], submissions = [], driveSyncLogs = [], ledgerFaults = [],
      disk = Map.empty, drive = emptyDrive, admins = [], alerts = []\<rparr>"

text \<open>A stored row of submission \<open>sub-1\<close> with the given id, size and statuses.\<close>

definition storedFile ::
    "string \<Rightarrow> nat \<Rightarrow> VirusScanStatus \<Rightarrow> DriveSyncStatus \<Rightarrow> bool \<Rightarrow> File" where
  "storedFile fid sz scan sync del =
     \<lparr>fileId = fid, submissionId = ''sub-1'', filename = fid @ ''.pdf'',
      originalFilename = ''report.pdf'', filePath = ''/uploads/'' @ fid @ ''.pdf'',
      fileSize = sz, mimeType = ''application/pdf'',
      virusScanStatus = scan, virusScanResult = None,
      driveSyncStatus = sync, driveSyncAttempts = 0,
      googleDriveId = None, googleDriveUrl = None, driveSyncError = None,
      deleted = del\<rparr>"

text \<open>Four clean files of 50 MB each: the submission holds exactly 200 MB.\<close>

definition quotaState :: State where
  "quotaState =
     emptyState\<lparr>files :=
       [storedFile ''f1'' 52428800 Clean PENDING False,
        storedFile ''f2'' 52428800 Clean PENDING False,
        storedFile ''f3'' 52428800 Clean PENDING False,
        storedFile ''f4'' 52428800 Clean PENDING False]\<rparr>"

definition noteDto :: UploadFileDto where
  "noteDto =
     \<lparr>dtoSubmissionId = ''sub-1'', dtoOriginalFilename = ''note.txt'',
      dtoMimeType = ''text/plain'', dtoBuffer = ''x''\<rparr>"

definition okEnv :: UploadEnv where
  "okEnv = \<lparr>uploadDir = ''/uploads'', uuid = ''u5'', newFileId = ''f5'', writeOutcome = WriteOk\<rparr>"

definition noteRow :: File where
  "noteRow =
     \<lparr>fileId = ''f5'', submissionId = ''sub-1'', filename = ''u5.txt'',
      originalFilename = ''note.txt'', filePath = ''/uploads/u5.txt'',
      fileSize = 1, mimeType = ''text/plain'',
      virusScanStatus = ScanPending, virusScanResult = None,
      driveSyncStatus = PENDING, driveSyncAttempts = 0,
      googleDriveId = None, googleDriveUrl = None, driveSyncError = None,
      deleted = False\<rparr>"

text \<open>A disk that fills up after two bytes of a five-byte upload.\<close>

definition helloDto :: UploadFileDto where
  "helloDto =
     \<lparr>dtoSubmissionId = ''sub-1'', dtoOriginalFilename = ''hello.txt'',
      dtoMimeType = ''text/plain'', dtoBuffer = ''hello''\<rparr>"

definition fullDiskEnv :: UploadEnv where
  "fullDiskEnv =
     \<lparr>uploadDir = ''/uploads'', uuid = ''u1'', newFileId = ''f1'',
      writeOutcome = WriteFails ''ENOSPC: no space left on device'' (Some 2)\<rparr>"

text \<open>One soft-deleted, synced file, and a table of three live files.\<close>

definition deletedOnlyState :: State where
  "deletedOnlyState = emptyState\<lparr>files := [storedFile ''f1'' 10 Clean SYNCED True]\<rparr>"

definition threeFilesState :: State where
  "threeFilesState =
     emptyState\<lparr>files :=
       [storedFile ''f1'' 10 Clean SYNCED False,
        storedFile ''f2'' 10 Clean FAILED False,
        storedFile ''f3'' 10 Scanning PENDING False]\<rparr>"

text \<open>A table of 160 live files, the first 23 of them synced, the others pending.\<close>

definition numberedFiles :: "DriveSyncStatus \<Rightarrow> nat list \<Rightarrow> File list" where
  "numberedFiles sync ns = map (\<lambda>i. storedFile (''f'' @ showNat i) 10 Clean sync False) ns"

definition partlySyncedState :: State where
  "partlySyncedState =
     emptyState\<lparr>files := numberedFiles SYNCED [0..<23] @ numberedFiles PENDING [23..<160]\<rparr>"

text \<open>
  A clean, stored file \<open>f1\<close> of a submission whose Drive folder is provisioned, with
  a Drive that works, one that fails twice and then works, and one that fails three times;
  and the same file under a submission that has no Drive folder yet.
\<close>

definition provisionedSub :: Submission where
  "provisionedSub =
     \<lparr>subId = ''sub-1'', referenceId = ''REF-000001'',
      googleDriveFolderId = Some ''folder-1'',
      googleDriveFolderUrl = Some ''https://drive.google.com/drive/folders/folder-1'',
      subDriveSyncStatus = SYNCED, subDriveSyncError = None, driveSyncRetries = 0\<rparr>"

definition unprovisionedSub :: Submission where
  "unprovisionedSub =
     \<lparr>subId = ''sub-1'', referenceId = ''REF-000001'',
      googleDriveFolderId = None, googleDriveFolderUrl = None,
      subDriveSyncStatus = PENDING, subDriveSyncError = None, driveSyncRetries = 0\<rparr>"

definition cleanFile :: File where
  "cleanFile = storedFile ''f1'' 10 Clean PENDING False"

definition readyState :: State where
  "readyState =
     emptyState\<lparr>files := [cleanFile],
                 submissions := [provisionedSub],
                 disk := [''/uploads/f1.pdf'' \<mapsto> ''0123456789''],
                 admins := [''admin@example.org'']\<rparr>"

definition flakyState :: State where
  "flakyState =
     readyState\<lparr>drive := emptyDrive\<lparr>faults :=
       [Some ''socket hang up'', Some ''rate limit exceeded'']\<rparr>\<rparr>"

definition downState :: State where
  "downState =
     readyState\<lparr>drive := emptyDrive\<lparr>faults :=
       [Some ''socket hang up'', Some ''rate limit exceeded'', Some ''quota exceeded'']\<rparr>\<rparr>"

definition orphanState :: State where
  "orphanState = readyState\<lparr>submissions := [unprovisionedSub]\<rparr>"

text \<open>A ledger row of an upload attempt.\<close>

definition ledgerRow :: "string \<Rightarrow> string \<Rightarrow> nat \<Rightarrow> string option \<Rightarrow> DriveSyncLog" where
  "ledgerRow fid status attempt err =
     \<lparr>logFileId = fid, logAction = UPLOAD, logStatus = status,
      attemptNumber = attempt, errorMessage = err\<rparr>"

text \<open>
  Provisioning the folder of submission \<open>sub-1\<close> twice in a row, in March 2025, on an
  empty Drive.
\<close>

definition archiveState :: State where
  "archiveState = emptyState\<lparr>submissions := [unprovisionedSub]\<rparr>"

definition firstProvision :: "(string + string \<times> string) \<times> State" where
  "firstProvision =
     createSubmissionFolder ''root'' ''2025'' ''March'' ''sub-1'' ''REF-000001'' archiveState"

definition secondProvision :: "(string + string \<times> string) \<times> State" where
  "secondProvision =
     createSubmissionFolder ''root'' ''2025'' ''March'' ''sub-1'' ''REF-000001''
       (snd firstProvision)"

text \<open>
  Two callers resolving the year folder at the same time on an empty Drive: both listings
  are answered before either caller continues.
\<close>

definition raceListA :: "(string + DriveFolder list) \<times> Drive" where
  "raceListA = listFolders ''2025'' ''root'' emptyDrive"

definition raceListB :: "(string + DriveFolder list) \<times> Drive" where
  "raceListB = listFolders ''2025'' ''root'' (snd raceListA)"

definition raceResumeA :: "(string + string) \<times> Drive" where
  "raceResumeA =
     (case fst raceListA of
        Inr found \<Rightarrow> getOrCreateFolder_resume found ''2025'' ''root'' (snd raceListB)
      | Inl e \<Rightarrow> (Inl e, snd raceListB))"

definition raceResumeB :: "(string + string) \<times> Drive" where
  "raceResumeB =
     (case fst raceListB of
        Inr found \<Rightarrow> getOrCreateFolder_resume found ''2025'' ''root'' (snd raceResumeA)
      | Inl e \<Rightarrow> (Inl e, snd raceResumeA))"

text \<open>A working Drive without uploaded files, given by its folders and its call log.\<close>

definition driveOf :: "DriveFolder list \<Rightarrow> ApiCall list \<Rightarrow> Drive" where
  "driveOf fs calls = \<lparr>folders = fs, uploads = [], apiCalls = calls, faults = []\<rparr>"

definition remoteFolder :: "string \<Rightarrow> string \<Rightarrow> string \<Rightarrow> DriveFolder" where
  "remoteFolder i name parent = \<lparr>folderId = i, folderName = name, folderParent = parent\<rparr>"

text \<open>
  The file \<open>f1\<close> while its scan is still running, and a sync task all of whose reads
  see it that way: the scan takes longer than the task polls.
\<close>

definition scanningFile :: File where
  "scanningFile = storedFile ''f1'' 10 Scanning PENDING False"

definition scanningState :: State where
  "scanningState = readyState\<lparr>files := [scanningFile]\<rparr>"

definition slowScanReads :: "nat \<Rightarrow> File option" where
  "slowScanReads k = findFile ''f1'' scanningState"

text \<open>A scan that is seen running at the first three reads and clean from then on.\<close>

definition quickScanReads :: "nat \<Rightarrow> File option" where
  "quickScanReads k = (if k < 3 then Some scanningFile else Some cleanFile)"

text \<open>
  One run of the pipeline: the note \<open>f5\<close> is accepted for a provisioned submission,
  its scan starts and comes back clean, the sync task reads the row twice and uploads it.
\<close>

definition pipelineBase :: State where
  "pipelineBase = emptyState\<lparr>submissions := [provisionedSub]\<rparr>"

definition scannedNote :: File where
  "scannedNote =
     noteRow\<lparr>virusScanStatus := Clean, virusScanResult := Some ''No threats detected''\<rparr>"

definition pipeline0 :: System where
  "pipeline0 = \<lparr>db = pipelineBase, scanPc = (\<lambda>fid. ScanIdle), syncPc = (\<lambda>fid. SyncIdle)\<rparr>"

definition pipeline1 :: System where
  "pipeline1 =
     pipeline0\<lparr>db := snd (FileService_uploadFile okEnv noteDto (db pipeline0)),
               scanPc := (scanPc pipeline0)(fileId noteRow := ScanQueued (filePath noteRow)),
               syncPc := (syncPc pipeline0)(fileId noteRow := SyncQueued)\<rparr>"

definition pipeline2 :: System where
  "pipeline2 =
     pipeline1\<lparr>db := snd (scanBegin ''f5'' ''/uploads/u5.txt'' (db pipeline1)),
               scanPc := (scanPc pipeline1)
                 (''f5'' := fst (scanBegin ''f5'' ''/uploads/u5.txt'' (db pipeline1)))\<rparr>"

definition pipeline3 :: System where
  "pipeline3 =
     pipeline2\<lparr>db := snd (scanVerdict ''f5'' ''/uploads/u5.txt'' ClamClean (db pipeline2)),
               scanPc := (scanPc pipeline2)
                 (''f5'' := fst (scanVerdict ''f5'' ''/uploads/u5.txt'' ClamClean (db pipeline2)))\<rparr>"

definition pipeline4 :: System where
  "pipeline4 =
     pipeline3\<lparr>syncPc := (syncPc pipeline3)
                 (''f5'' := syncFirstRead (findFile ''f5'' (db pipeline3)))\<rparr>"

definition pipeline5 :: System where
  "pipeline5 =
     pipeline4\<lparr>syncPc := (syncPc pipeline4)
                 (''f5'' := syncRefetch (findFile ''f5'' (db pipeline4)))\<rparr>"

definition pipeline6 :: System where
  "pipeline6 =
     pipeline5\<lparr>db := snd (DriveService_uploadFile (optionsOf scannedNote) (db pipeline5)),
               syncPc := (syncPc pipeline5)(''f5'' := SyncFinished)\<rparr>"

section \<open>Properties of the validator\<close>

lemma replaceLeading_no_backslash:
  "CHR 0x5C \<notin> set s \<Longrightarrow> replaceLeading s = s"
  by (auto simp: replaceLeading_def split: list.splits)

lemma replaceLeading_after_filter:
  "replaceLeading (filter (\<lambda>c. \<not> inFirstClass c) s) = filter (\<lambda>c. \<not> inFirstClass c) s"
  by (rule replaceLeading_no_backslash) (auto simp: inFirstClass_def)

text \<open>
  With the second replacement without effect, a name of at most 255 characters comes back
  with its slashes, backslashes and characters \<^verbatim>\<open>0\<close> removed, and nothing else.
\<close>

lemma sanitizeFilename_short:
  assumes "length (filter (\<lambda>c. \<not> inFirstClass c) fname) \<le> 255"
  shows "sanitizeFilename fname =
           (if filter (\<lambda>c. \<not> inFirstClass c) fname = [] then ''file''
            else filter (\<lambda>c. \<not> inFirstClass c) fname)"
  using assms by (simp add: sanitizeFilename_def replaceLeading_after_filter Let_def)

lemma sanitize_env: "sanitizeFilename ''.env'' = ''.env''"
  by (simp add: sanitizeFilename_short inFirstClass_def)

lemma sanitize_nul: "sanitizeFilename [CHR ''a'', CHR 0x00, CHR ''b''] = [CHR ''a'', CHR 0x00, CHR ''b'']"
  by (simp add: sanitizeFilename_short inFirstClass_def)

lemma sanitize_digits: "sanitizeFilename ''report2024.pdf'' = ''report224.pdf''"
  by (simp add: sanitizeFilename_short inFirstClass_def)

text \<open>
  C9. \<^verbatim>\<open>sanitizeFilename\<close> is to strip path separators and control characters and
  to strip leading dots. On the code a leading dot stays (\<^verbatim>\<open>.env\<close> comes back as it
  is), a NUL character stays, and every digit \<^verbatim>\<open>0\<close> of the name is removed instead.
\<close>

theorem sanitizeFilename_keeps_dot_and_nul:
  "sanitizeFilename ''.env'' = ''.env'' \<and>
   sanitizeFilename [CHR ''a'', CHR 0x00, CHR ''b''] = [CHR ''a'', CHR 0x00, CHR ''b''] \<and>
   sanitizeFilename ''report2024.pdf'' = ''report224.pdf''"
  by (simp only: sanitize_env sanitize_nul sanitize_digits)

theorem sanitizeFilename_keeps_dot_and_nul_witness:
  "hd (sanitizeFilename ''.env'') = CHR ''.''"
  using sanitizeFilename_keeps_dot_and_nul by simp

section \<open>Properties of upload acceptance\<close>

lemma note_sanitized: "sanitizeFilename ''note.txt'' = ''note.txt''"
  by (simp add: sanitizeFilename_short inFirstClass_def)

lemma note_ext: "extname ''note.txt'' = ''.txt''"
  by (simp add: extname_def lastPart_def)

lemma quota_count: "validateFileCount (files quotaState) ''sub-1'' = Inr ()"
  by (simp add: quotaState_def emptyState_def storedFile_def validateFileCount_def
        liveFilesOf_def MAX_FILES_PER_SUBMISSION_def)

lemma note_size: "validateFileSize (length ''x'') = Inr ()"
  by (simp add: validateFileSize_def MAX_FILE_SIZE_def)

lemma plain_mime: "validateMimeType ''text/plain'' = Inr ()"
  by (simp add: validateMimeType_def ALLOWED_MIMETYPES_def)

lemma FileService_uploadFile_accepts:
  assumes "validateFileCount (files st) (dtoSubmissionId dto) = Inr ()"
    and "validateFileSize (length (dtoBuffer dto)) = Inr ()"
    and "validateMimeType (dtoMimeType dto) = Inr ()"
    and "writeOutcome env = WriteOk"
    and "\<forall>f \<in> set (files st). fileId f \<noteq> newFileId env"
  shows "FileService_uploadFile env dto st =
           (Inr (newFileRow env dto),
            st\<lparr>disk := (disk st)(filePath (newFileRow env dto) \<mapsto> dtoBuffer dto),
               files := files st @ [newFileRow env dto]\<rparr>)"
proof -
  have "fileId (newFileRow env dto) = newFileId env"
    by (simp add: newFileRow_def Let_def)
  with assms(5) have "\<not> (\<exists>f \<in> set (files st). fileId f = fileId (newFileRow env dto))"
    by simp
  then show ?thesis
    using assms(1-4)
    by (simp add: FileService_uploadFile_def writeFile_def createFile_def Let_def)
qed

lemma note_row: "newFileRow okEnv noteDto = noteRow"
  by (simp add: newFileRow_def okEnv_def noteDto_def noteRow_def note_sanitized note_ext
        pathJoin_def Let_def)

lemma quota_ids: "\<forall>f \<in> set (files quotaState). fileId f \<noteq> newFileId okEnv"
  by (simp add: quotaState_def emptyState_def storedFile_def okEnv_def)

lemma quota_upload:
  "FileService_uploadFile okEnv noteDto quotaState =
     (Inr noteRow,
      quotaState\<lparr>disk := (disk quotaState)(''/uploads/u5.txt'' \<mapsto> ''x''),
                 files := files quotaState @ [noteRow]\<rparr>)"
proof -
  have a: "validateFileCount (files quotaState) (dtoSubmissionId noteDto) = Inr ()"
    using quota_count by (simp add: noteDto_def)
  have b: "validateFileSize (length (dtoBuffer noteDto)) = Inr ()"
    using note_size by (simp add: noteDto_def)
  have c: "validateMimeType (dtoMimeType noteDto) = Inr ()"
    using plain_mime by (simp add: noteDto_def)
  have d: "writeOutcome okEnv = WriteOk"
    by (simp add: okEnv_def)
  have e: "filePath noteRow = ''/uploads/u5.txt''" "dtoBuffer noteDto = ''x''"
    by (simp_all add: noteRow_def noteDto_def)
  show ?thesis
    using FileService_uploadFile_accepts [OF a b c d quota_ids]
    by (simp only: note_row e)
qed

lemma quota_total:
  "validateTotalSize (files quotaState) ''sub-1'' 1 = Inl ''Total file size exceeds maximum of 200MB''"
  by (simp add: validateTotalSize_def quotaState_def emptyState_def storedFile_def
        liveFilesOf_def MAX_TOTAL_SIZE_def)

text \<open>
  C8. An upload that takes the submission's total over the 200 MB ceiling is to fail
  before anything is stored. On the code \<^verbatim>\<open>uploadFile\<close> never calls
  \<^verbatim>\<open>validateTotalSize\<close>: with four files of 50 MB stored, one more byte is
  accepted, written to disk and recorded, although \<^verbatim>\<open>validateTotalSize\<close> rejects
  exactly this input.
\<close>

theorem uploadFile_ignores_total_size:
  "validateTotalSize (files quotaState) (dtoSubmissionId noteDto) (length (dtoBuffer noteDto))
     = Inl ''Total file size exceeds maximum of 200MB'' \<and>
   fst (FileService_uploadFile okEnv noteDto quotaState) = Inr noteRow \<and>
   disk (snd (FileService_uploadFile okEnv noteDto quotaState)) ''/uploads/u5.txt'' = Some ''x'' \<and>
   files (snd (FileService_uploadFile okEnv noteDto quotaState)) = files quotaState @ [noteRow]"
proof -
  have "dtoSubmissionId noteDto = ''sub-1''" and "length (dtoBuffer noteDto) = 1"
    by (simp_all add: noteDto_def)
  then show ?thesis
    using quota_total by (simp add: quota_upload)
qed

theorem uploadFile_ignores_total_size_witness:
  "length (files (snd (FileService_uploadFile okEnv noteDto quotaState))) = 5"
  using uploadFile_ignores_total_size by (simp add: quotaState_def)

lemma FileService_uploadFile_write_fails:
  assumes "validateFileCount (files st) (dtoSubmissionId dto) = Inr ()"
    and "validateFileSize (length (dtoBuffer dto)) = Inr ()"
    and "validateMimeType (dtoMimeType dto) = Inr ()"
    and "writeOutcome env = WriteFails msg n"
  shows "FileService_uploadFile env dto st =
           (Inl msg,
            st\<lparr>disk := (case n of
                           None \<Rightarrow> disk st
                         | Some k \<Rightarrow> (disk st)(filePath (newFileRow env dto) \<mapsto>
                                        take k (dtoBuffer dto)))\<rparr>)"
  using assms
  by (cases n) (simp_all add: FileService_uploadFile_def writeFile_def Let_def)

lemma hello_sanitized: "sanitizeFilename ''hello.txt'' = ''hello.txt''"
  by (simp add: sanitizeFilename_short inFirstClass_def)

lemma hello_ext: "extname ''hello.txt'' = ''.txt''"
  by (simp add: extname_def lastPart_def)

lemma hello_path: "filePath (newFileRow fullDiskEnv helloDto) = ''/uploads/u1.txt''"
  by (simp add: newFileRow_def fullDiskEnv_def helloDto_def hello_sanitized hello_ext
        pathJoin_def Let_def)

lemma hello_checks:
  "validateFileCount (files emptyState) (dtoSubmissionId helloDto) = Inr ()"
  "validateFileSize (length (dtoBuffer helloDto)) = Inr ()"
  "validateMimeType (dtoMimeType helloDto) = Inr ()"
  "writeOutcome fullDiskEnv = WriteFails ''ENOSPC: no space left on device'' (Some 2)"
  by (simp_all add: emptyState_def helloDto_def fullDiskEnv_def validateFileCount_def
        liveFilesOf_def MAX_FILES_PER_SUBMISSION_def validateFileSize_def MAX_FILE_SIZE_def
        plain_mime)

lemma hello_upload:
  "FileService_uploadFile fullDiskEnv helloDto emptyState =
     (Inl ''ENOSPC: no space left on device'',
      emptyState\<lparr>disk := (disk emptyState)(''/uploads/u1.txt'' \<mapsto> ''he'')\<rparr>)"
proof -
  have "take 2 (dtoBuffer helloDto) = ''he''"
    by (simp add: helloDto_def)
  then show ?thesis
    using FileService_uploadFile_write_fails [OF hello_checks]
    by (simp add: hello_path)
qed

text \<open>
  C3, as stated, fails: the buffer is written straight to the published path, so a write
  that fails after two bytes leaves those two bytes there.
\<close>

theorem uploadFile_partial_artifact_counterexample:
  "fst (FileService_uploadFile fullDiskEnv helloDto emptyState)
     = Inl ''ENOSPC: no space left on device'' \<and>
   disk emptyState ''/uploads/u1.txt'' = None \<and>
   disk (snd (FileService_uploadFile fullDiskEnv helloDto emptyState)) ''/uploads/u1.txt''
     = Some ''he''"
  by (simp add: hello_upload) (simp add: emptyState_def)

text \<open>
  C3, amended. The uploaded bytes are written directly to the final path. When the write
  fails, the failure reaches the caller and no record is created (no table changes); the
  bytes written before the failure stay at the final path.
\<close>

theorem uploadFile_write_failure_propagates:
  assumes "validateFileCount (files st) (dtoSubmissionId dto) = Inr ()"
    and "validateFileSize (length (dtoBuffer dto)) = Inr ()"
    and "validateMimeType (dtoMimeType dto) = Inr ()"
    and "writeOutcome env = WriteFails msg n"
  shows "fst (FileService_uploadFile env dto st) = Inl msg \<and>
         files (snd (FileService_uploadFile env dto st)) = files st \<and>
         driveSyncLogs (snd (FileService_uploadFile env dto st)) = driveSyncLogs st \<and>
         disk (snd (FileService_uploadFile env dto st)) (filePath (newFileRow env dto)) =
           (case n of
              None \<Rightarrow> disk st (filePath (newFileRow env dto))
            | Some k \<Rightarrow> Some (take k (dtoBuffer dto)))"
  by (cases n) (simp_all add: FileService_uploadFile_write_fails [OF assms])

theorem uploadFile_write_failure_propagates_witness:
  "fst (FileService_uploadFile fullDiskEnv helloDto emptyState)
     = Inl ''ENOSPC: no space left on device'' \<and>
   files (snd (FileService_uploadFile fullDiskEnv helloDto emptyState)) = []"
  using uploadFile_write_failure_propagates [OF hello_checks]
  by (simp add: emptyState_def)

section \<open>Properties of the statistics\<close>

subsection \<open>Statistics\<close>

lemma pow_step: "(2::rat) powi e = 2 * 2 powi (e - 1)"
proof -
  have "(2::rat) powi ((e - 1) + 1) = 2 powi (e - 1) * 2 powi 1"
    by (rule power_int_add) simp
  then show ?thesis
    by simp
qed

lemma scaleUp_inv:
  "scaleUp x e = (y, e') \<Longrightarrow> 0 < x \<Longrightarrow> - 1074 \<le> e \<Longrightarrow>
     y * 2 powi e' = x * 2 powi e \<and> 0 < y \<and> - 1074 \<le> e' \<and> (- 1074 < e' \<longrightarrow> 2 ^ 52 \<le> y)"
proof (induction x e rule: scaleUp.induct)
  case (1 x e)
  show ?case
  proof (cases "x < 2 ^ 52 \<and> - 1074 < e")
    case True
    then have s: "scaleUp (2 * x) (e - 1) = (y, e')"
      using "1.prems"(1) by (subst (asm) scaleUp.simps) simp
    from "1.IH" [OF True s] "1.prems" True
    have ih: "y * 2 powi e' = 2 * x * 2 powi (e - 1)" "0 < y" "- 1074 \<le> e'"
        "- 1074 < e' \<longrightarrow> 2 ^ 52 \<le> y"
      by simp_all
    have "2 * x * 2 powi (e - 1) = x * (2 * 2 powi (e - 1))"
      by simp
    also have "\<dots> = x * 2 powi e"
      by (simp only: pow_step [symmetric])
    finally have "y * 2 powi e' = x * 2 powi e"
      using ih(1) by simp
    with ih show ?thesis
      by blast
  next
    case False
    then have "scaleUp x e = (x, e)"
      by (subst scaleUp.simps) auto
    then have "y = x" "e' = e"
      using "1.prems"(1) by simp_all
    with False "1.prems" show ?thesis
      by auto
  qed
qed

lemma roundEven_near: "\<bar>of_int (roundEven y) - y\<bar> \<le> 1 / 2"
proof -
  define f :: rat where "f = of_int \<lfloor>y\<rfloor>"
  have a: "f \<le> y" "y < f + 1"
    unfolding f_def by linarith+
  show ?thesis
    using a by (simp add: roundEven_def Let_def f_def [symmetric])
qed

lemma roundEven_nonneg: "0 \<le> y \<Longrightarrow> 0 \<le> roundEven y"
  by (simp add: roundEven_def Let_def)

lemma roundPos_err:
  assumes "0 < x"
  shows "\<bar>roundPos x - x\<bar> \<le> x / 2 ^ 53 + 1 / 2 ^ 1075" and "0 \<le> roundPos x"
proof -
  obtain y e where s: "scaleUp x 0 = (y, e)"
    by (cases "scaleUp x 0")
  define P :: rat where "P = 2 powi e"
  define r :: rat where "r = of_int (roundEven y)"
  from scaleUp_inv [OF s assms]
  have inv: "y * P = x" "0 < y" "- 1074 \<le> e" "- 1074 < e \<longrightarrow> 2 ^ 52 \<le> y"
    by (simp_all add: P_def)
  have P: "0 < P"
    by (simp add: P_def)
  have rp: "roundPos x = r * P"
    by (simp add: roundPos_def s r_def P_def)
  have near: "\<bar>r - y\<bar> \<le> 1 / 2"
    unfolding r_def by (rule roundEven_near)
  have "\<bar>r * P - y * P\<bar> = \<bar>r - y\<bar> * P"
    using P by (simp add: abs_mult left_diff_distrib [symmetric])
  also have "\<dots> \<le> 1 / 2 * P"
    using near P by (rule mult_right_mono [OF _ less_imp_le])
  finally have e1: "\<bar>roundPos x - x\<bar> \<le> P / 2"
    by (simp add: rp inv)
  have e2: "P / 2 \<le> x / 2 ^ 53 + 1 / 2 ^ 1075"
  proof (cases "- 1074 < e")
    case True
    then have "2 ^ 52 \<le> y"
      using inv by simp
    then have "2 ^ 52 * P \<le> y * P"
      using P by (rule mult_right_mono [OF _ less_imp_le])
    then have "2 ^ 52 * P \<le> x"
      by (simp add: inv)
    then have "P / 2 \<le> x / 2 ^ 53"
      by simp
    then show ?thesis
      by (rule order_trans) simp
  next
    case False
    then have "e = - 1074"
      using inv by simp
    then have "P = 1 / 2 ^ 1074"
      by (simp add: P_def power_int_def power_divide)
    then have "P / 2 = 1 / 2 ^ 1075"
      by simp
    then show ?thesis
      using assms by simp
  qed
  from e1 e2 show "\<bar>roundPos x - x\<bar> \<le> x / 2 ^ 53 + 1 / 2 ^ 1075"
    by (rule order_trans)
  have "0 \<le> roundEven y"
    using inv by (simp add: roundEven_nonneg)
  then show "0 \<le> roundPos x"
    using P by (simp add: rp r_def)
qed

lemma roundDouble_err:
  "0 \<le> x \<Longrightarrow> \<bar>roundDouble x - x\<bar> \<le> x / 2 ^ 53 + 1 / 2 ^ 1075"
  using roundPos_err(1) [of x] by (cases "x = 0") (simp_all add: roundDouble_def)

lemma roundDouble_nonneg: "0 \<le> x \<Longrightarrow> 0 \<le> roundDouble x"
  using roundPos_err(2) [of x] by (cases "x = 0") (simp_all add: roundDouble_def)

lemma subnormal_step_small: "(1::rat) / 2 ^ 1075 \<le> 1 / 2 ^ 53"
  by (rule divide_left_mono) simp_all

lemma rate_error_chain:
  fixes p1 p2 q d h :: rat
  assumes a1: "\<bar>p1 - q\<bar> \<le> q * d + h" and a2: "\<bar>p2 - p1 * 100\<bar> \<le> p1 * 100 * d + h"
    and q: "0 \<le> q" "q \<le> 1" and h: "0 \<le> h" "h \<le> d" and d: "0 \<le> d" "d \<le> 1 / 1000"
  shows "\<bar>p2 - 100 * q\<bar> \<le> 400 * d"
proof -
  have l1: "p1 - q \<le> q * d + h" "q - p1 \<le> q * d + h"
    using a1 by (simp_all add: abs_le_iff)
  have "p1 * 100 * d = 100 * (p1 * d)"
    by simp
  with a2 have l2: "p2 - p1 * 100 \<le> 100 * (p1 * d) + h" "p1 * 100 - p2 \<le> 100 * (p1 * d) + h"
    by (simp_all add: abs_le_iff)
  have qd: "q * d \<le> d"
    using q d by (simp add: mult_left_le_one_le)
  have p1: "p1 \<le> 1 + 2 * d"
    using l1 qd q h by linarith
  then have "p1 * d \<le> (1 + 2 * d) * d"
    using d(1) by (rule mult_right_mono)
  also have "\<dots> = d + 2 * (d * d)"
    by (simp add: algebra_simps)
  finally have "p1 * d \<le> d + 2 * (d * d)" .
  moreover have "d * d \<le> 1 / 1000 * d"
    using d(2) d(1) by (rule mult_right_mono)
  ultimately have p1d: "p1 * d \<le> d + d / 500"
    by simp
  show ?thesis
  proof (rule abs_leI)
    show "p2 - 100 * q \<le> 400 * d"
      using l1 l2 p1d qd h d by linarith
    show "- (p2 - 100 * q) \<le> 400 * d"
      using l1 l2 p1d qd h d by linarith
  qed
qed

lemma toFixed2_bounds:
  fixes p2 q d :: rat
  assumes n: "n = \<lfloor>p2 * 100 + 1 / 2\<rfloor>" and a: "\<bar>p2 - 100 * q\<bar> \<le> 400 * d"
    and q: "0 \<le> q" "q \<le> 1" and p2: "0 \<le> p2" and d: "0 \<le> d" "d \<le> 1 / 2 ^ 53"
  shows "0 \<le> n \<and> n \<le> 10000 \<and> \<bar>of_int n / 100 - 100 * q\<bar> \<le> 1 / 200 + 1 / 2 ^ 40"
proof -
  have c1: "of_int n \<le> p2 * 100 + 1 / 2" and c2: "p2 * 100 + 1 / 2 < of_int n + 1"
    unfolding n by linarith+
  have l: "p2 - 100 * q \<le> 400 * d" "100 * q - p2 \<le> 400 * d"
    using a by (simp_all add: abs_le_iff)
  have dd: "400 * d \<le> 1 / 2 ^ 40"
    using d(2) by simp
  have e: "(1::rat) / 2 ^ 40 \<le> 1 / 1000"
    by simp
  have n0: "0 \<le> n"
    using p2 by (simp add: n)
  have "of_int n < (10001::rat)"
    using c1 l dd e q by linarith
  then have n1: "n \<le> 10000"
    by linarith
  have "\<bar>of_int n / 100 - 100 * q\<bar> \<le> 1 / 200 + 1 / 2 ^ 40"
  proof (rule abs_leI)
    show "of_int n / 100 - 100 * q \<le> 1 / 200 + 1 / 2 ^ 40"
      using c1 l dd by linarith
    show "- (of_int n / 100 - 100 * q) \<le> 1 / 200 + 1 / 2 ^ 40"
      using c2 l dd by linarith
  qed
  with n0 n1 show ?thesis
    by simp
qed

lemma rate_text:
  assumes "s \<le> t" and "0 < t"
  defines "n \<equiv> toFixed2 (numTimes (numDiv (of_nat s) (of_nat t)) 100)"
  shows "0 \<le> n \<and> n \<le> 10000 \<and>
         \<bar>of_int n / 100 - 100 * (of_nat s / of_nat t :: rat)\<bar> \<le> 1 / 200 + 1 / 2 ^ 40"
proof -
  define q :: rat where "q = of_nat s / of_nat t"
  define p1 where "p1 = roundDouble q"
  define p2 where "p2 = roundDouble (p1 * 100)"
  define d :: rat where "d = 1 / 2 ^ 53"
  define h :: rat where "h = 1 / 2 ^ 1075"
  have q: "0 \<le> q" "q \<le> 1"
    using assms by (simp_all add: q_def)
  have h: "0 \<le> h" "h \<le> d"
    using subnormal_step_small by (simp_all add: h_def d_def)
  have d: "0 \<le> d" "d \<le> 1 / 1000" "d \<le> 1 / 2 ^ 53"
    by (simp_all add: d_def)
  have b1: "0 \<le> p1"
    unfolding p1_def using q(1) by (rule roundDouble_nonneg)
  then have m: "0 \<le> p1 * 100"
    by simp
  have b2: "0 \<le> p2"
    unfolding p2_def using m by (rule roundDouble_nonneg)
  have a1: "\<bar>p1 - q\<bar> \<le> q * d + h"
    using roundDouble_err [OF q(1)] by (simp add: p1_def d_def h_def)
  have a2: "\<bar>p2 - p1 * 100\<bar> \<le> p1 * 100 * d + h"
    using roundDouble_err [OF m] by (simp add: p2_def d_def h_def)
  have c: "\<bar>p2 - 100 * q\<bar> \<le> 400 * d"
    using a1 a2 q h d(1) d(2) by (rule rate_error_chain)
  have n: "n = \<lfloor>p2 * 100 + 1 / 2\<rfloor>"
    using b2 by (simp add: n_def toFixed2_def numTimes_def numDiv_def p2_def p1_def q_def)
  show ?thesis
    unfolding q_def [symmetric]
    using n c q b2 d(1) d(3) by (rule toFixed2_bounds)
qed

lemma parseFloat2_near:
  assumes "0 \<le> k" and "k \<le> 10000"
  shows "\<bar>parseFloat2 k - of_int k / 100\<bar> \<le> 1 / 2 ^ 46"
proof -
  define x :: rat where "x = of_int k / 100"
  have x: "0 \<le> x" "x \<le> 100"
    using assms by (simp_all add: x_def)
  have "\<bar>roundDouble x - x\<bar> \<le> x / 2 ^ 53 + 1 / 2 ^ 1075"
    using x(1) by (rule roundDouble_err)
  moreover have "x / 2 ^ 53 \<le> 100 / 2 ^ 53"
    using x(2) by (simp add: divide_right_mono)
  moreover have "(100::rat) / 2 ^ 53 + 1 / 2 ^ 53 \<le> 1 / 2 ^ 46"
    by simp
  ultimately have "\<bar>roundDouble x - x\<bar> \<le> 1 / 2 ^ 46"
    using subnormal_step_small by linarith
  then show ?thesis
    by (simp add: parseFloat2_def x_def)
qed

lemma status_partition:
  "length (filter (\<lambda>f. driveSyncStatus f = SYNCED) fs) +
   length (filter (\<lambda>f. driveSyncStatus f = FAILED) fs) +
   length (filter (\<lambda>f. driveSyncStatus f = PENDING) fs) +
   length (filter (\<lambda>f. driveSyncStatus f = SYNCING) fs) = length fs"
proof (induction fs)
  case Nil
  show ?case by simp
next
  case (Cons f fs)
  then show ?case by (cases "driveSyncStatus f") simp_all
qed

text \<open>Evaluation of the arithmetic on numerals.\<close>

lemma floor_numeral_div: "\<lfloor>(numeral a :: rat) / numeral b\<rfloor> = numeral a div numeral b"
  using floor_divide_of_int_eq [of "numeral a" "numeral b", where ?'a = rat] by simp

lemmas double_eval =
  parseFloat2_def toFixed2_def numTimes_def numDiv_def roundDouble_def roundPos_def
  roundEven_def scaleUp.simps Let_def power_int_def power_divide floor_numeral_div

lemma rate_1_of_1: "parseFloat2 (toFixed2 (numTimes (numDiv 1 1) 100)) = 100"
  by (simp add: double_eval)

lemma rate_23_of_160:
  "parseFloat2 (toFixed2 (numTimes (numDiv 23 160) 100)) = 8089590830664253 / 2 ^ 49"
  by (simp add: double_eval)

lemma rate_3_of_32:
  "parseFloat2 (toFixed2 (numTimes (numDiv 3 32) 100)) = 5280470563091907 / 2 ^ 49"
  by (simp add: double_eval)

lemma double_1437: "roundDouble (1437 / 100) = 8089590830664253 / 2 ^ 49"
  by (simp add: double_eval)

lemma count_numbered:
  "length (filter (\<lambda>f. driveSyncStatus f = s) (numberedFiles d ns)) =
     (if d = s then length ns else 0)"
  by (induction ns) (simp_all add: numberedFiles_def storedFile_def)

text \<open>
  With 23 of 160 files synced the exact percentage is 14.375, but the double product
  \<^verbatim>\<open>(23 / 160) * 100\<close> lies just below it, and the rate returned is the double nearest
  to 14.37.
\<close>

lemma partly_synced_rate:
  "syncSuccessRate (getSyncStats partlySyncedState) = roundDouble (1437 / 100)"
proof -
  have "length (files partlySyncedState) = 160"
    by (simp add: partlySyncedState_def emptyState_def numberedFiles_def)
  moreover have "countStatus SYNCED partlySyncedState = 23"
    by (simp add: countStatus_def partlySyncedState_def emptyState_def count_numbered)
  ultimately show ?thesis
    by (simp add: getSyncStats_def Let_def rate_23_of_160 double_1437)
qed

text \<open>
  C7, as stated, fails twice on one input: a table whose only file is soft-deleted and
  synced has no non-deleted file, yet \<^verbatim>\<open>getSyncStats\<close> counts one file, and the
  rate it returns is the percentage 100, not the ratio 1.
\<close>

theorem getSyncStats_counts_deleted_counterexample:
  "filter (\<lambda>f. \<not> deleted f) (files deletedOnlyState) = [] \<and>
   totalFiles (getSyncStats deletedOnlyState) = 1 \<and>
   syncedFiles (getSyncStats deletedOnlyState) = 1 \<and>
   syncSuccessRate (getSyncStats deletedOnlyState) = 100"
  by (simp add: getSyncStats_def countStatus_def deletedOnlyState_def emptyState_def
        storedFile_def rate_1_of_1 Let_def)

text \<open>
  C7, amended. \<^verbatim>\<open>getSyncStats\<close> counts every row of the file table, soft-deleted
  rows included, in total and per status (the syncing count is the remainder). The
  success rate is 0 for an empty table. Otherwise it is a percentage with two decimals,
  computed in double arithmetic: there is a whole number \<open>k\<close> of hundredths between 0
  and 10000 such that the rate is the double nearest to \<open>k / 100\<close> (so within \<open>2^-46\<close>
  of it), and \<open>k / 100\<close> differs from the exact percentage \<open>100 * synced / total\<close> by
  at most half a hundredth and the rounding error of the two double operations, which is
  below \<open>2^-40\<close>.
\<close>

theorem getSyncStats_counts_all_rows:
  "totalFiles (getSyncStats st) = length (files st) \<and>
   syncedFiles (getSyncStats st) = countStatus SYNCED st \<and>
   failedFiles (getSyncStats st) = countStatus FAILED st \<and>
   pendingFiles (getSyncStats st) = countStatus PENDING st \<and>
   syncingFiles (getSyncStats st) = int (countStatus SYNCING st) \<and>
   (if files st = [] then syncSuccessRate (getSyncStats st) = 0
    else \<exists>k. 0 \<le> k \<and> k \<le> 10000 \<and>
           syncSuccessRate (getSyncStats st) = roundDouble (of_int k / 100) \<and>
           \<bar>syncSuccessRate (getSyncStats st) - of_int k / 100\<bar> \<le> 1 / 2 ^ 46 \<and>
           \<bar>of_int k / 100
              - 100 * (of_nat (countStatus SYNCED st) / of_nat (length (files st)))\<bar>
             \<le> (1 / 200 + 1 / 2 ^ 40 :: rat))"
proof -
  have syncing: "int (countStatus SYNCING st) =
          int (length (files st)) - int (countStatus SYNCED st)
            - int (countStatus FAILED st) - int (countStatus PENDING st)"
    using status_partition [of "files st"] by (simp add: countStatus_def)
  have counts: "totalFiles (getSyncStats st) = length (files st)"
      "syncedFiles (getSyncStats st) = countStatus SYNCED st"
      "failedFiles (getSyncStats st) = countStatus FAILED st"
      "pendingFiles (getSyncStats st) = countStatus PENDING st"
      "syncingFiles (getSyncStats st) = int (countStatus SYNCING st)"
    using syncing by (simp_all add: getSyncStats_def Let_def)
  have rate: "if files st = [] then syncSuccessRate (getSyncStats st) = 0
    else \<exists>k. 0 \<le> k \<and> k \<le> 10000 \<and>
           syncSuccessRate (getSyncStats st) = roundDouble (of_int k / 100) \<and>
           \<bar>syncSuccessRate (getSyncStats st) - of_int k / 100\<bar> \<le> 1 / 2 ^ 46 \<and>
           \<bar>of_int k / 100
              - 100 * (of_nat (countStatus SYNCED st) / of_nat (length (files st)))\<bar>
             \<le> (1 / 200 + 1 / 2 ^ 40 :: rat)"
  proof (cases "files st = []")
    case True
    then show ?thesis
      by (simp add: getSyncStats_def Let_def parseFloat2_def roundDouble_def)
  next
    case False
    define k where
      "k = toFixed2 (numTimes (numDiv (of_nat (countStatus SYNCED st))
                                      (of_nat (length (files st)))) 100)"
    have le: "countStatus SYNCED st \<le> length (files st)"
      by (simp add: countStatus_def)
    have pos: "0 < length (files st)"
      using False by simp
    have k: "0 \<le> k \<and> k \<le> 10000 \<and>
         \<bar>of_int k / 100
            - 100 * (of_nat (countStatus SYNCED st) / of_nat (length (files st)) :: rat)\<bar>
           \<le> 1 / 200 + 1 / 2 ^ 40"
      unfolding k_def using le pos by (rule rate_text)
    have r: "syncSuccessRate (getSyncStats st) = parseFloat2 k"
      using pos by (simp add: getSyncStats_def Let_def k_def)
    have near: "\<bar>parseFloat2 k - of_int k / 100\<bar> \<le> 1 / 2 ^ 46"
      using k by (intro parseFloat2_near) simp_all
    have "0 \<le> k \<and> k \<le> 10000 \<and>
           syncSuccessRate (getSyncStats st) = roundDouble (of_int k / 100) \<and>
           \<bar>syncSuccessRate (getSyncStats st) - of_int k / 100\<bar> \<le> 1 / 2 ^ 46 \<and>
           \<bar>of_int k / 100
              - 100 * (of_nat (countStatus SYNCED st) / of_nat (length (files st)))\<bar>
             \<le> (1 / 200 + 1 / 2 ^ 40 :: rat)"
      using k near unfolding r by (simp add: parseFloat2_def)
    then have "\<exists>k. 0 \<le> k \<and> k \<le> 10000 \<and>
           syncSuccessRate (getSyncStats st) = roundDouble (of_int k / 100) \<and>
           \<bar>syncSuccessRate (getSyncStats st) - of_int k / 100\<bar> \<le> 1 / 2 ^ 46 \<and>
           \<bar>of_int k / 100
              - 100 * (of_nat (countStatus SYNCED st) / of_nat (length (files st)))\<bar>
             \<le> (1 / 200 + 1 / 2 ^ 40 :: rat)"
      by (rule exI)
    with False show ?thesis
      by simp
  qed
  from counts rate show ?thesis
    by (intro conjI)
qed

theorem getSyncStats_counts_all_rows_witness:
  "totalFiles (getSyncStats threeFilesState) = 3 \<and>
   syncingFiles (getSyncStats threeFilesState) = 0 \<and>
   (\<exists>k. 0 \<le> k \<and> k \<le> 10000 \<and>
      syncSuccessRate (getSyncStats threeFilesState) = roundDouble (of_int k / 100) \<and>
      \<bar>of_int k / 100 - 100 / 3\<bar> \<le> (1 / 200 + 1 / 2 ^ 40 :: rat))"
proof -
  have a: "files threeFilesState \<noteq> []" "length (files threeFilesState) = 3"
      "countStatus SYNCED threeFilesState = 1" "countStatus SYNCING threeFilesState = 0"
    by (simp_all add: threeFilesState_def emptyState_def storedFile_def countStatus_def)
  note stats = getSyncStats_counts_all_rows [of threeFilesState]
  have total: "totalFiles (getSyncStats threeFilesState) = 3"
    using stats [THEN conjunct1] by (simp only: a)
  have syncing: "syncingFiles (getSyncStats threeFilesState) = 0"
    using stats [THEN conjunct2, THEN conjunct2, THEN conjunct2, THEN conjunct2, THEN conjunct1]
    by (simp only: a int_ops)
  have "\<exists>k. 0 \<le> k \<and> k \<le> 10000 \<and>
      syncSuccessRate (getSyncStats threeFilesState) = roundDouble (of_int k / 100) \<and>
      \<bar>syncSuccessRate (getSyncStats threeFilesState) - of_int k / 100\<bar> \<le> 1 / 2 ^ 46 \<and>
      \<bar>of_int k / 100 - 100 * (of_nat 1 / of_nat 3)\<bar> \<le> (1 / 200 + 1 / 2 ^ 40 :: rat)"
    using stats [THEN conjunct2, THEN conjunct2, THEN conjunct2, THEN conjunct2, THEN conjunct2]
    by (simp only: a if_False)
  then obtain k where k: "0 \<le> k" "k \<le> 10000"
      "syncSuccessRate (getSyncStats threeFilesState) = roundDouble (of_int k / 100)"
      "\<bar>of_int k / 100 - 100 * (of_nat 1 / of_nat 3)\<bar> \<le> (1 / 200 + 1 / 2 ^ 40 :: rat)"
    by blast
  have "(100::rat) * (of_nat 1 / of_nat 3) = 100 / 3"
    by simp
  with k(4) have "\<bar>of_int k / 100 - 100 / 3\<bar> \<le> (1 / 200 + 1 / 2 ^ 40 :: rat)"
    by (simp only:)
  with k(1-3) total syncing show ?thesis
    by blast
qed

section \<open>Properties of the sync engine\<close>

subsection \<open>What a sync call leaves alone\<close>

lemma syncTouch_refl: "syncTouch fid f f"
  by (simp add: syncTouch_def sameOutsideSync_def)

lemma syncTouch_trans: "syncTouch fid f g \<Longrightarrow> syncTouch fid g h \<Longrightarrow> syncTouch fid f h"
  by (auto simp: syncTouch_def sameOutsideSync_def)

lemma syncFrame_refl: "syncFrame fid st st"
  by (simp add: syncFrame_def list_all2_refl syncTouch_refl)

lemma syncFrame_trans:
  assumes "syncFrame fid st st1" and "syncFrame fid st1 st2"
  shows "syncFrame fid st st2"
proof -
  from assms obtain n1 n2 where
    n1: "driveSyncLogs st1 = driveSyncLogs st @ n1" "\<forall>l \<in> set n1. logFileId l = fid" and
    n2: "driveSyncLogs st2 = driveSyncLogs st1 @ n2" "\<forall>l \<in> set n2. logFileId l = fid"
    by (auto simp: syncFrame_def)
  have logs: "\<exists>new. driveSyncLogs st2 = driveSyncLogs st @ new \<and> (\<forall>l \<in> set new. logFileId l = fid)"
    using n1 n2 by (intro exI [of _ "n1 @ n2"]) auto
  from assms have a: "list_all2 (syncTouch fid) (files st) (files st1)"
    and b: "list_all2 (syncTouch fid) (files st1) (files st2)"
    by (simp_all add: syncFrame_def)
  have rows: "list_all2 (syncTouch fid) (files st) (files st2)"
    by (rule list_all2_trans [OF _ a b]) (rule syncTouch_trans)
  show ?thesis
    using assms logs rows by (simp add: syncFrame_def)
qed

lemma updateFile_rows:
  assumes "updateFile fid upd st = Inr st'"
  shows "st' = st\<lparr>files := map (\<lambda>f. if fileId f = fid then upd f else f) (files st)\<rparr>"
  using assms by (auto simp: updateFile_def split: if_splits)

lemma updateFile_syncFrame:
  assumes "updateFile fid upd st = Inr st'"
    and "\<And>f. sameOutsideSync f (upd f)"
  shows "syncFrame fid st st'"
proof -
  have "list_all2 (syncTouch fid) (files st)
          (map (\<lambda>f. if fileId f = fid then upd f else f) (files st))"
    using assms(2)
    by (auto simp: list_all2_map2 syncTouch_def sameOutsideSync_def intro!: list_all2_refl)
  then show ?thesis
    by (simp add: updateFile_rows [OF assms(1)] syncFrame_def)
qed

lemma logDriveSync_syncFrame: "syncFrame fid st (logDriveSync fid a s k e st)"
proof -
  have "list_all2 (syncTouch fid) (files st) (files st)"
    by (simp add: list_all2_refl syncTouch_refl)
  then show ?thesis
    by (auto simp: logDriveSync_def syncFrame_def Let_def split: list.splits bool.splits)
qed

lemma apiCall_folders: "apiCall c d = (r, d') \<Longrightarrow> folders d' = folders d"
  by (auto simp: apiCall_def split: list.splits)

lemma performUpload_syncFrame:
  assumes "performUpload path name mime parent st = (r, st')"
  shows "syncFrame fid st st'"
proof -
  obtain x d' where c: "apiCall (CreateFile name parent) (drive st) = (x, d')"
    by (cases "apiCall (CreateFile name parent) (drive st)")
  have "folders d' = folders (drive st)"
    using c by (rule apiCall_folders)
  moreover have "list_all2 (syncTouch fid) (files st) (files st)"
    by (simp add: list_all2_refl syncTouch_refl)
  ultimately show ?thesis
    using assms c
    by (auto simp: performUpload_def syncFrame_def Let_def split: option.splits)
qed

lemma tryAttempt_syncFrame:
  assumes "tryAttempt opts folder k st = (r, st')"
  shows "syncFrame (optFileId opts) st st'"
proof (cases "updateFile (optFileId opts)
                (\<lambda>f. f\<lparr>driveSyncStatus := SYNCING, driveSyncAttempts := k\<rparr>) st")
  case (Inl e)
  with assms show ?thesis
    by (simp add: tryAttempt_def syncFrame_refl)
next
  case (Inr st1)
  define st2 where "st2 = logDriveSync (optFileId opts) UPLOAD ''started'' k None st1"
  obtain u st3 where up:
    "performUpload (optFilePath opts) (optFilename opts) (optMimeType opts) folder st2 = (u, st3)"
    by (cases "performUpload (optFilePath opts) (optFilename opts) (optMimeType opts) folder st2")
  have f1: "syncFrame (optFileId opts) st st1"
    using Inr by (rule updateFile_syncFrame) (simp add: sameOutsideSync_def)
  have f2: "syncFrame (optFileId opts) st1 st2"
    unfolding st2_def by (rule logDriveSync_syncFrame)
  have f3: "syncFrame (optFileId opts) st2 st3"
    using up by (rule performUpload_syncFrame)
  have f03: "syncFrame (optFileId opts) st st3"
    using f1 f2 f3 by (blast intro: syncFrame_trans)
  show ?thesis
  proof (cases u)
    case (Inl e)
    with assms Inr up f03 show ?thesis
      by (simp add: tryAttempt_def st2_def Let_def)
  next
    case (Inr res)
    obtain rid link where res: "res = (rid, link)"
      by (cases res)
    show ?thesis
    proof (cases "updateFile (optFileId opts)
                    (\<lambda>f. f\<lparr>googleDriveId := Some rid, googleDriveUrl := Some link,
                            driveSyncStatus := SYNCED, driveSyncError := None\<rparr>) st3")
      case (Inl e)
      with assms \<open>updateFile _ _ st = Inr st1\<close> up \<open>u = Inr res\<close> res f03 show ?thesis
        by (simp add: tryAttempt_def st2_def Let_def)
    next
      case (Inr st4)
      have f4: "syncFrame (optFileId opts) st3 st4"
        using Inr by (rule updateFile_syncFrame) (simp add: sameOutsideSync_def)
      have f5: "syncFrame (optFileId opts) st4
                  (logDriveSync (optFileId opts) UPLOAD ''success'' k None st4)"
        by (rule logDriveSync_syncFrame)
      have "st' = logDriveSync (optFileId opts) UPLOAD ''success'' k None st4"
        using assms \<open>updateFile _ _ st = Inr st1\<close> up \<open>u = Inr res\<close> res Inr
        by (simp add: tryAttempt_def st2_def Let_def)
      then show ?thesis
        using f03 f4 f5 by (blast intro: syncFrame_trans)
    qed
  qed
qed

lemma allRetriesFailed_syncFrame:
  assumes "allRetriesFailed opts lastError st = (r, st')"
  shows "syncFrame (optFileId opts) st st'"
proof -
  define msg where "msg = (case lastError of
                   None \<Rightarrow> ''Upload failed after retries''
                 | Some m \<Rightarrow> if m = [] then ''Upload failed after retries'' else m)"
  show ?thesis
  proof (cases "updateFile (optFileId opts)
                  (\<lambda>f. f\<lparr>driveSyncStatus := FAILED, driveSyncError := Some msg\<rparr>) st")
    case (Inl e)
    with assms show ?thesis
      by (simp add: allRetriesFailed_def msg_def syncFrame_refl)
  next
    case (Inr st1)
    have "syncFrame (optFileId opts) st st1"
      using Inr by (rule updateFile_syncFrame) (simp add: sameOutsideSync_def)
    with assms Inr show ?thesis
      by (simp add: allRetriesFailed_def msg_def)
  qed
qed

lemma uploadAttempts_syncFrame:
  "uploadAttempts opts folder k lastError st = (r, st') \<Longrightarrow> syncFrame (optFileId opts) st st'"
proof (induction opts folder k lastError st arbitrary: r st' rule: uploadAttempts.induct)
  case (1 opts folder attempt lastError st)
  show ?case
  proof (cases "attempt \<le> maxRetries")
    case False
    with "1.prems" show ?thesis
      by (simp add: uploadAttempts.simps allRetriesFailed_syncFrame)
  next
    case True
    obtain t st1 where t: "tryAttempt opts folder attempt st = (t, st1)"
      by (cases "tryAttempt opts folder attempt st")
    have f1: "syncFrame (optFileId opts) st st1"
      using t by (rule tryAttempt_syncFrame)
    show ?thesis
    proof (cases t)
      case (Inr result)
      with "1.prems" True t f1 show ?thesis
        by (simp add: uploadAttempts.simps)
    next
      case (Inl e)
      define st2 where "st2 = logDriveSync (optFileId opts) UPLOAD ''failed'' attempt (Some e) st1"
      have f2: "syncFrame (optFileId opts) st1 st2"
        unfolding st2_def by (rule logDriveSync_syncFrame)
      have "uploadAttempts opts folder (attempt + 1) (Some e) st2 = (r, st')"
        using "1.prems" True t Inl by (simp add: uploadAttempts.simps [of _ _ attempt] st2_def)
      then have "syncFrame (optFileId opts) st2 st'"
        using "1.IH" [OF True t [symmetric] Inl] by (simp add: st2_def)
      with f1 f2 show ?thesis
        by (blast intro: syncFrame_trans)
    qed
  qed
qed

lemma DriveService_uploadFile_syncFrame:
  assumes "DriveService_uploadFile opts st = (r, st')"
  shows "syncFrame (optFileId opts) st st'"
  using assms
  by (auto simp: DriveService_uploadFile_def syncFrame_refl uploadAttempts_syncFrame
           split: option.splits)

subsection \<open>Single attempts\<close>

lemma hasFile_updateFile:
  "hasFile fid st \<Longrightarrow>
   updateFile fid upd st =
     Inr (st\<lparr>files := map (\<lambda>f. if fileId f = fid then upd f else f) (files st)\<rparr>)"
  by (simp add: updateFile_def hasFile_def)

lemma hasFile_ids: "hasFile fid st \<longleftrightarrow> fid \<in> set (map fileId (files st))"
  by (auto simp: hasFile_def)

lemma map_fileId_update:
  "(\<And>f. fileId (upd f) = fileId f) \<Longrightarrow>
   map fileId (map (\<lambda>f. if fileId f = fid then upd f else f) xs) = map fileId xs"
  by (induction xs) auto

lemma syncFrame_ids:
  assumes "syncFrame fid st st'"
  shows "map fileId (files st') = map fileId (files st)"
proof -
  from assms have "list_all2 (syncTouch fid) (files st) (files st')"
    by (simp add: syncFrame_def)
  then show ?thesis
    by (induction rule: list_all2_induct) (simp_all add: syncTouch_def sameOutsideSync_def)
qed

lemma hasFile_syncFrame: "syncFrame fid' st st' \<Longrightarrow> hasFile fid st \<Longrightarrow> hasFile fid st'"
  by (simp add: hasFile_ids syncFrame_ids)

lemma logDriveSync_quiet:
  "ledgerFaults st = [] \<Longrightarrow>
   logDriveSync fid a s k e st =
     st\<lparr>driveSyncLogs := driveSyncLogs st @
           [\<lparr>logFileId = fid, logAction = a, logStatus = s, attemptNumber = k,
             errorMessage = e\<rparr>]\<rparr>"
  by (simp add: logDriveSync_def)

lemma logDriveSync_other_fields:
  "files (logDriveSync fid a s k e st) = files st"
  "drive (logDriveSync fid a s k e st) = drive st"
  "disk (logDriveSync fid a s k e st) = disk st"
  by (simp_all add: logDriveSync_def Let_def split: list.splits bool.splits)

lemma performUpload_faulted:
  "faults (drive st) = Some e # rest \<Longrightarrow>
   performUpload path name mime parent st =
     (Inl e, st\<lparr>drive := (drive st)\<lparr>apiCalls := apiCalls (drive st) @ [CreateFile name parent],
                                    faults := rest\<rparr>\<rparr>)"
  by (simp add: performUpload_def apiCall_def)

lemma performUpload_ok:
  "faults (drive st) = [] \<Longrightarrow> disk st path = Some body \<Longrightarrow>
   performUpload path name mime parent st =
     (Inr (newDriveId (drive st), webViewLinkOf (newDriveId (drive st))),
      st\<lparr>drive := (drive st)\<lparr>apiCalls := apiCalls (drive st) @ [CreateFile name parent],
                             uploads := uploads (drive st) @
                               [\<lparr>remoteId = newDriveId (drive st), remoteName = name,
                                 remoteMime = mime, remoteParent = parent,
                                 remoteBody = body\<rparr>]\<rparr>\<rparr>)"
  by (simp add: performUpload_def apiCall_def newDriveId_def Let_def)

text \<open>An attempt that meets a Drive fault: the row is marked syncing, the start is
  logged, and the fault comes back.\<close>

lemma tryAttempt_faulted:
  assumes "hasFile (optFileId opts) st" and "faults (drive st) = Some e # rest"
  shows "\<exists>st'. tryAttempt opts folder k st = (Inl e, st') \<and>
               faults (drive st') = rest \<and>
               (ledgerFaults st = [] \<longrightarrow>
                  ledgerFaults st' = [] \<and>
                  driveSyncLogs st' =
                    driveSyncLogs st @ [ledgerRow (optFileId opts) ''started'' k None])"
proof -
  define st1 where
    "st1 = st\<lparr>files := map (\<lambda>f. if fileId f = optFileId opts
                                  then f\<lparr>driveSyncStatus := SYNCING, driveSyncAttempts := k\<rparr>
                                  else f) (files st)\<rparr>"
  define st2 where "st2 = logDriveSync (optFileId opts) UPLOAD ''started'' k None st1"
  have u: "updateFile (optFileId opts)
             (\<lambda>f. f\<lparr>driveSyncStatus := SYNCING, driveSyncAttempts := k\<rparr>) st = Inr st1"
    unfolding st1_def using assms(1) by (rule hasFile_updateFile)
  have "faults (drive st2) = Some e # rest"
    using assms(2) by (simp add: st2_def logDriveSync_other_fields st1_def)
  then have p: "performUpload (optFilePath opts) (optFilename opts) (optMimeType opts) folder st2 =
      (Inl e, st2\<lparr>drive := (drive st2)\<lparr>apiCalls := apiCalls (drive st2) @
                    [CreateFile (optFilename opts) folder], faults := rest\<rparr>\<rparr>)"
    by (rule performUpload_faulted)
  have t: "tryAttempt opts folder k st =
      (Inl e, st2\<lparr>drive := (drive st2)\<lparr>apiCalls := apiCalls (drive st2) @
                    [CreateFile (optFilename opts) folder], faults := rest\<rparr>\<rparr>)"
    using u p by (simp add: tryAttempt_def st2_def Let_def)
  have l: "ledgerFaults st = [] \<longrightarrow>
             ledgerFaults st2 = [] \<and>
             driveSyncLogs st2 =
               driveSyncLogs st @ [ledgerRow (optFileId opts) ''started'' k None]"
    by (simp add: st2_def st1_def logDriveSync_quiet ledgerRow_def)
  show ?thesis
    using t l by simp
qed

text \<open>An attempt on a working Drive with the local file in place: the file is uploaded
  into the submission's folder, the row is marked synced, start and success are logged.\<close>

lemma tryAttempt_succeeds:
  assumes "hasFile (optFileId opts) st" and "faults (drive st) = []"
    and "disk st (optFilePath opts) = Some body"
  shows "\<exists>res st'. tryAttempt opts folder k st = (Inr res, st') \<and> success res \<and>
           (\<forall>f \<in> set (files st'). fileId f = optFileId opts \<longrightarrow>
                driveSyncStatus f = SYNCED \<and> driveSyncAttempts f = k \<and>
                driveSyncError f = None \<and> googleDriveId f = Some (resFileId res)) \<and>
           (ledgerFaults st = [] \<longrightarrow>
                driveSyncLogs st' =
                  driveSyncLogs st @ [ledgerRow (optFileId opts) ''started'' k None,
                                      ledgerRow (optFileId opts) ''success'' k None])"
proof -
  define st1 where
    "st1 = st\<lparr>files := map (\<lambda>f. if fileId f = optFileId opts
                                  then f\<lparr>driveSyncStatus := SYNCING, driveSyncAttempts := k\<rparr>
                                  else f) (files st)\<rparr>"
  define st2 where "st2 = logDriveSync (optFileId opts) UPLOAD ''started'' k None st1"
  define rid where "rid = newDriveId (drive st2)"
  define st3 where
    "st3 = st2\<lparr>drive := (drive st2)\<lparr>apiCalls := apiCalls (drive st2) @
                    [CreateFile (optFilename opts) folder],
                  uploads := uploads (drive st2) @
                    [\<lparr>remoteId = rid, remoteName = optFilename opts,
                      remoteMime = optMimeType opts, remoteParent = folder,
                      remoteBody = body\<rparr>]\<rparr>\<rparr>"
  define st4 where
    "st4 = st3\<lparr>files := map (\<lambda>f. if fileId f = optFileId opts
                                   then f\<lparr>googleDriveId := Some rid,
                                          googleDriveUrl := Some (webViewLinkOf rid),
                                          driveSyncStatus := SYNCED,
                                          driveSyncError := None\<rparr>
                                   else f) (files st3)\<rparr>"
  define st5 where "st5 = logDriveSync (optFileId opts) UPLOAD ''success'' k None st4"
  have u: "updateFile (optFileId opts)
             (\<lambda>f. f\<lparr>driveSyncStatus := SYNCING, driveSyncAttempts := k\<rparr>) st = Inr st1"
    unfolding st1_def using assms(1) by (rule hasFile_updateFile)
  have "faults (drive st2) = []" and "disk st2 (optFilePath opts) = Some body"
    using assms(2,3) by (simp_all add: st2_def logDriveSync_other_fields st1_def)
  then have p: "performUpload (optFilePath opts) (optFilename opts) (optMimeType opts) folder st2 =
      (Inr (rid, webViewLinkOf rid), st3)"
    unfolding st3_def rid_def by (rule performUpload_ok)
  have files3: "files st3 = files st1"
    by (simp add: st3_def st2_def logDriveSync_other_fields)
  have "map fileId (files st3) = map fileId (files st)"
    by (simp add: files3 st1_def map_fileId_update)
  then have "hasFile (optFileId opts) st3"
    using assms(1) by (simp add: hasFile_ids)
  then have u2: "updateFile (optFileId opts)
             (\<lambda>f. f\<lparr>googleDriveId := Some rid, googleDriveUrl := Some (webViewLinkOf rid),
                     driveSyncStatus := SYNCED, driveSyncError := None\<rparr>) st3 = Inr st4"
    unfolding st4_def by (rule hasFile_updateFile)
  have t: "tryAttempt opts folder k st =
      (Inr \<lparr>resFileId = rid, webViewLink = webViewLinkOf rid, success = True\<rparr>, st5)"
    using u p u2 by (simp add: tryAttempt_def st2_def st5_def Let_def)
  have rows: "\<forall>f \<in> set (files st5). fileId f = optFileId opts \<longrightarrow>
                driveSyncStatus f = SYNCED \<and> driveSyncAttempts f = k \<and>
                driveSyncError f = None \<and> googleDriveId f = Some rid"
    by (auto simp: st5_def logDriveSync_other_fields st4_def files3 st1_def)
  have l: "ledgerFaults st = [] \<longrightarrow>
             driveSyncLogs st5 =
               driveSyncLogs st @ [ledgerRow (optFileId opts) ''started'' k None,
                                   ledgerRow (optFileId opts) ''success'' k None]"
    by (simp add: st5_def st4_def st3_def st2_def st1_def logDriveSync_quiet ledgerRow_def)
  show ?thesis
    using t rows l by simp
qed

lemma allRetriesFailed_marks:
  assumes "hasFile (optFileId opts) st" and "e \<noteq> []"
  shows "\<exists>st'. allRetriesFailed opts (Some e) st = (Inl e, st') \<and>
           driveSyncLogs st' = driveSyncLogs st \<and>
           (\<forall>f \<in> set (files st'). fileId f = optFileId opts \<longrightarrow>
                driveSyncStatus f = FAILED \<and> driveSyncError f = Some e)"
  using assms by (auto simp: allRetriesFailed_def hasFile_updateFile)

subsection \<open>Rounds of the retry loop\<close>

lemma failed_round:
  assumes "hasFile (optFileId opts) st" and "faults (drive st) = Some e # rest"
    and "k \<le> maxRetries" and "k' = k + 1"
  shows "\<exists>st2. uploadAttempts opts folder k lastError st =
                 uploadAttempts opts folder k' (Some e) st2 \<and>
               hasFile (optFileId opts) st2 \<and> faults (drive st2) = rest \<and>
               disk st2 = disk st \<and>
               (ledgerFaults st = [] \<longrightarrow>
                  ledgerFaults st2 = [] \<and>
                  driveSyncLogs st2 =
                    driveSyncLogs st @ [ledgerRow (optFileId opts) ''started'' k None,
                                        ledgerRow (optFileId opts) ''failed'' k (Some e)])"
proof -
  from tryAttempt_faulted [OF assms(1,2)] obtain st1 where
    t: "tryAttempt opts folder k st = (Inl e, st1)" and
    f: "faults (drive st1) = rest" and
    l: "ledgerFaults st = [] \<longrightarrow>
          ledgerFaults st1 = [] \<and>
          driveSyncLogs st1 = driveSyncLogs st @ [ledgerRow (optFileId opts) ''started'' k None]"
    by blast
  define st2 where "st2 = logDriveSync (optFileId opts) UPLOAD ''failed'' k (Some e) st1"
  have fr: "syncFrame (optFileId opts) st st2"
    unfolding st2_def
    using tryAttempt_syncFrame [OF t] logDriveSync_syncFrame by (rule syncFrame_trans)
  have "uploadAttempts opts folder k lastError st =
          uploadAttempts opts folder k' (Some e) st2"
    using assms(3,4) t by (simp add: uploadAttempts.simps [of _ _ k] st2_def)
  moreover have "hasFile (optFileId opts) st2"
    using fr assms(1) by (rule hasFile_syncFrame)
  moreover have "faults (drive st2) = rest"
    using f by (simp add: st2_def logDriveSync_other_fields)
  moreover have "disk st2 = disk st"
    using fr by (simp add: syncFrame_def)
  moreover have "ledgerFaults st = [] \<longrightarrow>
                  ledgerFaults st2 = [] \<and>
                  driveSyncLogs st2 =
                    driveSyncLogs st @ [ledgerRow (optFileId opts) ''started'' k None,
                                        ledgerRow (optFileId opts) ''failed'' k (Some e)]"
    using l by (simp add: st2_def logDriveSync_quiet ledgerRow_def)
  ultimately show ?thesis
    by blast
qed

lemma success_round:
  assumes "hasFile (optFileId opts) st" and "faults (drive st) = []"
    and "disk st (optFilePath opts) = Some body" and "k \<le> maxRetries"
  shows "\<exists>res st'. uploadAttempts opts folder k lastError st = (Inr res, st') \<and> success res \<and>
           (\<forall>f \<in> set (files st'). fileId f = optFileId opts \<longrightarrow>
                driveSyncStatus f = SYNCED \<and> driveSyncAttempts f = k \<and>
                driveSyncError f = None \<and> googleDriveId f = Some (resFileId res)) \<and>
           (ledgerFaults st = [] \<longrightarrow>
                driveSyncLogs st' =
                  driveSyncLogs st @ [ledgerRow (optFileId opts) ''started'' k None,
                                      ledgerRow (optFileId opts) ''success'' k None])"
proof -
  from tryAttempt_succeeds [OF assms(1-3)] obtain res st' where
    t: "tryAttempt opts folder k st = (Inr res, st')" and
    rest: "success res"
      "\<forall>f \<in> set (files st'). fileId f = optFileId opts \<longrightarrow>
                driveSyncStatus f = SYNCED \<and> driveSyncAttempts f = k \<and>
                driveSyncError f = None \<and> googleDriveId f = Some (resFileId res)"
      "ledgerFaults st = [] \<longrightarrow>
                driveSyncLogs st' =
                  driveSyncLogs st @ [ledgerRow (optFileId opts) ''started'' k None,
                                      ledgerRow (optFileId opts) ''success'' k None]"
    by blast
  have "uploadAttempts opts folder k lastError st = (Inr res, st')"
    using assms(4) t by (simp add: uploadAttempts.simps [of _ _ k])
  with rest show ?thesis
    by blast
qed

lemma exhausted_round:
  assumes "hasFile (optFileId opts) st" and "e \<noteq> []" and "\<not> k \<le> maxRetries"
  shows "\<exists>st'. uploadAttempts opts folder k (Some e) st = (Inl e, st') \<and>
           driveSyncLogs st' = driveSyncLogs st \<and>
           (\<forall>f \<in> set (files st'). fileId f = optFileId opts \<longrightarrow>
                driveSyncStatus f = FAILED \<and> driveSyncError f = Some e)"
  using allRetriesFailed_marks [OF assms(1,2)] assms(3)
  by (simp add: uploadAttempts.simps [of _ _ k])

text \<open>Two faults, then a working Drive: the third attempt succeeds, and every attempt
  leaves a \<open>started\<close> row and an outcome row.\<close>

lemma flaky_run:
  assumes "hasFile (optFileId opts) st"
    and "submissionFolder (optSubmissionId opts) st = Some folder"
    and "faults (drive st) = [Some e1, Some e2]"
    and "disk st (optFilePath opts) = Some body"
    and "ledgerFaults st = []"
  shows "(\<exists>res. fst (DriveService_uploadFile opts st) = Inr res \<and> success res) \<and>
         (\<forall>f \<in> set (files (snd (DriveService_uploadFile opts st))).
            fileId f = optFileId opts \<longrightarrow>
              driveSyncStatus f = SYNCED \<and> driveSyncAttempts f = 3) \<and>
         driveSyncLogs (snd (DriveService_uploadFile opts st)) =
           driveSyncLogs st @
             [ledgerRow (optFileId opts) ''started'' 1 None,
              ledgerRow (optFileId opts) ''failed'' 1 (Some e1),
              ledgerRow (optFileId opts) ''started'' 2 None,
              ledgerRow (optFileId opts) ''failed'' 2 (Some e2),
              ledgerRow (optFileId opts) ''started'' 3 None,
              ledgerRow (optFileId opts) ''success'' 3 None]"
proof -
  have k: "(1::nat) \<le> maxRetries" "(2::nat) \<le> maxRetries" "(3::nat) \<le> maxRetries"
    by (simp_all add: maxRetries_def)
  have n: "(2::nat) = 1 + 1" "(3::nat) = 2 + 1"
    by simp_all
  from failed_round [OF assms(1,3) k(1) n(1), of folder None] assms(5) obtain st2 where
    r1: "uploadAttempts opts folder 1 None st = uploadAttempts opts folder 2 (Some e1) st2" and
    h2: "hasFile (optFileId opts) st2" and f2: "faults (drive st2) = [Some e2]" and
    d2': "disk st2 = disk st" and l2: "ledgerFaults st2 = []" and
    g2: "driveSyncLogs st2 =
           driveSyncLogs st @ [ledgerRow (optFileId opts) ''started'' 1 None,
                               ledgerRow (optFileId opts) ''failed'' 1 (Some e1)]"
    by blast
  from failed_round [OF h2 f2 k(2) n(2), of folder "Some e1"] l2 obtain st3 where
    r2: "uploadAttempts opts folder 2 (Some e1) st2 = uploadAttempts opts folder 3 (Some e2) st3" and
    h3: "hasFile (optFileId opts) st3" and f3: "faults (drive st3) = []" and
    d3': "disk st3 = disk st2" and l3: "ledgerFaults st3 = []" and
    g3: "driveSyncLogs st3 =
           driveSyncLogs st2 @ [ledgerRow (optFileId opts) ''started'' 2 None,
                                ledgerRow (optFileId opts) ''failed'' 2 (Some e2)]"
    by blast
  have d3: "disk st3 (optFilePath opts) = Some body"
    using assms(4) d2' d3' by simp
  from success_round [OF h3 f3 d3 k(3), of folder "Some e2"] l3 obtain res st' where
    r3: "uploadAttempts opts folder 3 (Some e2) st3 = (Inr res, st')" and
    ok: "success res" and
    rows: "\<forall>f \<in> set (files st'). fileId f = optFileId opts \<longrightarrow>
                driveSyncStatus f = SYNCED \<and> driveSyncAttempts f = 3 \<and>
                driveSyncError f = None \<and> googleDriveId f = Some (resFileId res)" and
    g4: "driveSyncLogs st' =
           driveSyncLogs st3 @ [ledgerRow (optFileId opts) ''started'' 3 None,
                                ledgerRow (optFileId opts) ''success'' 3 None]"
    by blast
  have "DriveService_uploadFile opts st = (Inr res, st')"
    using assms(2) r1 r2 r3 by (simp add: DriveService_uploadFile_def)
  then show ?thesis
    using ok rows g2 g3 g4 by simp
qed

text \<open>Three faults in a row: the row ends failed with the last error, the ledger has
  three \<open>started\<close> and three \<open>failed\<close> rows, and the last error is thrown.\<close>

lemma down_run:
  assumes "hasFile (optFileId opts) st"
    and "submissionFolder (optSubmissionId opts) st = Some folder"
    and "faults (drive st) = Some e1 # Some e2 # Some e3 # rest"
    and "e3 \<noteq> []"
  shows "fst (DriveService_uploadFile opts st) = Inl e3 \<and>
         (\<forall>f \<in> set (files (snd (DriveService_uploadFile opts st))).
            fileId f = optFileId opts \<longrightarrow>
              driveSyncStatus f = FAILED \<and> driveSyncError f = Some e3)"
proof -
  have k: "(1::nat) \<le> maxRetries" "(2::nat) \<le> maxRetries" "(3::nat) \<le> maxRetries"
    "\<not> (4::nat) \<le> maxRetries"
    by (simp_all add: maxRetries_def)
  have n: "(2::nat) = 1 + 1" "(3::nat) = 2 + 1" "(4::nat) = 3 + 1"
    by simp_all
  from failed_round [OF assms(1,3) k(1) n(1), of folder None] obtain st2 where
    r1: "uploadAttempts opts folder 1 None st = uploadAttempts opts folder 2 (Some e1) st2" and
    h2: "hasFile (optFileId opts) st2" and f2: "faults (drive st2) = Some e2 # Some e3 # rest"
    by blast
  from failed_round [OF h2 f2 k(2) n(2), of folder "Some e1"] obtain st3 where
    r2: "uploadAttempts opts folder 2 (Some e1) st2 = uploadAttempts opts folder 3 (Some e2) st3" and
    h3: "hasFile (optFileId opts) st3" and f3: "faults (drive st3) = Some e3 # rest"
    by blast
  from failed_round [OF h3 f3 k(3) n(3), of folder "Some e2"] obtain st4 where
    r3: "uploadAttempts opts folder 3 (Some e2) st3 = uploadAttempts opts folder 4 (Some e3) st4" and
    h4: "hasFile (optFileId opts) st4"
    by blast
  from exhausted_round [OF h4 assms(4) k(4), of folder] obtain st' where
    r4: "uploadAttempts opts folder 4 (Some e3) st4 = (Inl e3, st')" and
    rows: "\<forall>f \<in> set (files st'). fileId f = optFileId opts \<longrightarrow>
                driveSyncStatus f = FAILED \<and> driveSyncError f = Some e3"
    by blast
  have "DriveService_uploadFile opts st = (Inl e3, st')"
    using assms(2) r1 r2 r3 r4 by (simp add: DriveService_uploadFile_def)
  then show ?thesis
    using rows by simp
qed

subsection \<open>The example file\<close>

lemma cleanFile_fields:
  "fileId cleanFile = ''f1''" "submissionId cleanFile = ''sub-1''"
  "filePath cleanFile = ''/uploads/f1.pdf''" "virusScanStatus cleanFile = Clean"
  "driveSyncStatus cleanFile = PENDING"
  by (simp_all add: cleanFile_def storedFile_def)

lemma cleanFile_options:
  "optFileId (optionsOf cleanFile) = ''f1''"
  "optSubmissionId (optionsOf cleanFile) = ''sub-1''"
  "optFilePath (optionsOf cleanFile) = ''/uploads/f1.pdf''"
  by (simp_all add: optionsOf_def cleanFile_fields)

lemma readyState_fields:
  "files readyState = [cleanFile]" "submissions readyState = [provisionedSub]"
  "disk readyState ''/uploads/f1.pdf'' = Some ''0123456789''"
  "driveSyncLogs readyState = []" "ledgerFaults readyState = []" "alerts readyState = []"
  "admins readyState = [''admin@example.org'']"
  by (simp_all add: readyState_def emptyState_def)

lemma ready_variants:
  "files flakyState = [cleanFile]" "submissions flakyState = [provisionedSub]"
  "disk flakyState ''/uploads/f1.pdf'' = Some ''0123456789''"
  "driveSyncLogs flakyState = []" "ledgerFaults flakyState = []"
  "faults (drive flakyState) = [Some ''socket hang up'', Some ''rate limit exceeded'']"
  "files downState = [cleanFile]" "submissions downState = [provisionedSub]"
  "alerts downState = []" "admins downState = [''admin@example.org'']"
  "faults (drive downState) =
     [Some ''socket hang up'', Some ''rate limit exceeded'', Some ''quota exceeded'']"
  "files orphanState = [cleanFile]" "submissions orphanState = [unprovisionedSub]"
  by (simp_all add: flakyState_def downState_def orphanState_def readyState_fields emptyDrive_def)

lemma example_hasFile:
  "hasFile (optFileId (optionsOf cleanFile)) flakyState"
  "hasFile (optFileId (optionsOf cleanFile)) downState"
  by (simp_all add: hasFile_def ready_variants cleanFile_options cleanFile_fields)

lemma example_folder:
  "submissionFolder (optSubmissionId (optionsOf cleanFile)) flakyState = Some ''folder-1''"
  "submissionFolder (optSubmissionId (optionsOf cleanFile)) downState = Some ''folder-1''"
  "submissionFolder (optSubmissionId (optionsOf cleanFile)) orphanState = None"
  by (simp_all add: submissionFolder_def findSubmission_def ready_variants cleanFile_options
        provisionedSub_def unprovisionedSub_def)

subsection \<open>Claims about the Drive upload\<close>

text \<open>
  C10. When the owning submission has no provisioned Drive folder (no such submission, a
  null folder id, or an empty one), \<^verbatim>\<open>DriveService.uploadFile\<close> fails with
  \<^verbatim>\<open>Submission Drive folder not found\<close> and the state is exactly as before: no
  row is touched, nothing is logged, no Drive call is made. And whatever the input, a sync
  call never creates a remote folder and never writes a submission: folders are not
  provisioned on demand during file sync.
\<close>

theorem uploadFile_requires_provisioned_folder:
  "(submissionFolder (optSubmissionId opts) st = None \<longrightarrow>
      DriveService_uploadFile opts st = (Inl ''Submission Drive folder not found'', st)) \<and>
   folders (drive (snd (DriveService_uploadFile opts st))) = folders (drive st) \<and>
   submissions (snd (DriveService_uploadFile opts st)) = submissions st"
proof -
  have "syncFrame (optFileId opts) st (snd (DriveService_uploadFile opts st))"
    by (rule DriveService_uploadFile_syncFrame [of _ _ "fst (DriveService_uploadFile opts st)"])
       simp
  then show ?thesis
    by (simp add: syncFrame_def DriveService_uploadFile_def)
qed

theorem uploadFile_requires_provisioned_folder_witness:
  "DriveService_uploadFile (optionsOf cleanFile) orphanState =
     (Inl ''Submission Drive folder not found'', orphanState)"
  using uploadFile_requires_provisioned_folder [of "optionsOf cleanFile" orphanState]
  by (simp add: example_folder)

text \<open>
  C5, as stated, fails: with two failed uploads and a third that succeeds the ledger
  holds six rows for the file, not three, because every attempt also logs a
  \<open>started\<close> row.
\<close>

theorem three_attempts_six_rows_counterexample:
  "map (\<lambda>l. (logStatus l, attemptNumber l))
     (filter (\<lambda>l. logFileId l = ''f1'')
        (driveSyncLogs (snd (DriveService_uploadFile (optionsOf cleanFile) flakyState)))) =
   [(''started'', 1), (''failed'', 1), (''started'', 2), (''failed'', 2),
    (''started'', 3), (''success'', 3)]"
  using flaky_run [OF example_hasFile(1) example_folder(1) ready_variants(6)
                      _ ready_variants(5), of "''0123456789''"]
  by (simp add: cleanFile_options ready_variants ledgerRow_def)

text \<open>
  C5, amended. For a clean-scanned file whose upload fails twice and then succeeds on the
  third attempt (folder provisioned, local file in place, ledger writes working), the
  call succeeds, the final syncStatus is SYNCED with three attempts recorded, and the
  ledger gains exactly six rows for that file: for each attempt 1, 2, 3 a \<open>started\<close>
  row followed by its outcome, \<open>failed\<close>, \<open>failed\<close>, \<open>success\<close>.
\<close>

theorem two_failures_then_success:
  assumes "hasFile (optFileId opts) st"
    and "submissionFolder (optSubmissionId opts) st = Some folder"
    and "faults (drive st) = [Some e1, Some e2]"
    and "disk st (optFilePath opts) = Some body"
    and "ledgerFaults st = []"
  shows "(\<exists>res. fst (DriveService_uploadFile opts st) = Inr res \<and> success res) \<and>
         (\<forall>f \<in> set (files (snd (DriveService_uploadFile opts st))).
            fileId f = optFileId opts \<longrightarrow>
              driveSyncStatus f = SYNCED \<and> driveSyncAttempts f = 3) \<and>
         driveSyncLogs (snd (DriveService_uploadFile opts st)) =
           driveSyncLogs st @
             [ledgerRow (optFileId opts) ''started'' 1 None,
              ledgerRow (optFileId opts) ''failed'' 1 (Some e1),
              ledgerRow (optFileId opts) ''started'' 2 None,
              ledgerRow (optFileId opts) ''failed'' 2 (Some e2),
              ledgerRow (optFileId opts) ''started'' 3 None,
              ledgerRow (optFileId opts) ''success'' 3 None]"
  using assms by (rule flaky_run)

theorem two_failures_then_success_witness:
  "map driveSyncStatus
     (files (snd (DriveService_uploadFile (optionsOf cleanFile) flakyState))) = [SYNCED] \<and>
   length (driveSyncLogs (snd (DriveService_uploadFile (optionsOf cleanFile) flakyState))) = 6"
proof -
  have fr: "syncFrame (optFileId (optionsOf cleanFile)) flakyState
              (snd (DriveService_uploadFile (optionsOf cleanFile) flakyState))"
    by (rule DriveService_uploadFile_syncFrame
          [of _ _ "fst (DriveService_uploadFile (optionsOf cleanFile) flakyState)"]) simp
  have "map fileId (files (snd (DriveService_uploadFile (optionsOf cleanFile) flakyState)))
          = [''f1'']"
    using syncFrame_ids [OF fr] by (simp add: ready_variants cleanFile_fields)
  then obtain f where
    f: "files (snd (DriveService_uploadFile (optionsOf cleanFile) flakyState)) = [f]"
      "fileId f = ''f1''"
    by auto
  have d: "disk flakyState (optFilePath (optionsOf cleanFile)) = Some ''0123456789''"
    by (simp add: cleanFile_options ready_variants)
  show ?thesis
    using two_failures_then_success
            [OF example_hasFile(1) example_folder(1) ready_variants(6) d ready_variants(5)] f
    by (simp add: cleanFile_options ready_variants)
qed

lemma alert_would_be_sent:
  assumes "findSubmission sid st = Some s"
  shows "alerts (sendDriveSyncFailureAlert sid err st) =
           alerts st @ map (\<lambda>a. (a, referenceId s, err)) (admins st)"
  using assms by (simp add: sendDriveSyncFailureAlert_def)

lemma uploadToDriveAsync_alerts: "alerts (uploadToDriveAsync obs st) = alerts st"
proof (cases "runSyncTask obs 0 SyncQueued")
  case (SyncCleared f)
  have "syncFrame (optFileId (optionsOf f)) st (snd (DriveService_uploadFile (optionsOf f) st))"
    by (rule DriveService_uploadFile_syncFrame
          [of _ _ "fst (DriveService_uploadFile (optionsOf f) st)"]) simp
  with SyncCleared show ?thesis
    by (simp add: uploadToDriveAsync_def syncFrame_def)
qed (simp_all add: uploadToDriveAsync_def)

text \<open>
  C4. When the last attempt fails the engine is to mark the file FAILED, keep the last
  error, and invoke the notification collaborator. On the code the first two happen and
  the third does not: three Drive faults leave the file FAILED with the last error
  stored, the error is thrown to \<^verbatim>\<open>uploadToDriveAsync\<close>, which only logs it, and
  no alert exists afterwards, although \<^verbatim>\<open>sendDriveSyncFailureAlert\<close>, had it been
  called, would have alerted the administrator.
\<close>

theorem exhausted_sync_sends_no_alert:
  "fst (DriveService_uploadFile (optionsOf cleanFile) downState) = Inl ''quota exceeded'' \<and>
   map driveSyncStatus
     (files (snd (DriveService_uploadFile (optionsOf cleanFile) downState))) = [FAILED] \<and>
   map driveSyncError
     (files (snd (DriveService_uploadFile (optionsOf cleanFile) downState)))
     = [Some ''quota exceeded''] \<and>
   alerts (snd (DriveService_uploadFile (optionsOf cleanFile) downState)) = [] \<and>
   alerts (uploadToDriveAsync obs downState) = [] \<and>
   alerts (sendDriveSyncFailureAlert ''sub-1'' ''quota exceeded''
             (snd (DriveService_uploadFile (optionsOf cleanFile) downState)))
     = [(''admin@example.org'', ''REF-000001'', ''quota exceeded'')]"
proof -
  let ?st' = "snd (DriveService_uploadFile (optionsOf cleanFile) downState)"
  have fr: "syncFrame (optFileId (optionsOf cleanFile)) downState ?st'"
    by (rule DriveService_uploadFile_syncFrame
          [of _ _ "fst (DriveService_uploadFile (optionsOf cleanFile) downState)"]) simp
  have "map fileId (files ?st') = [''f1'']"
    using syncFrame_ids [OF fr] by (simp add: ready_variants cleanFile_fields)
  then obtain f where f: "files ?st' = [f]" "fileId f = ''f1''"
    by auto
  have run: "fst (DriveService_uploadFile (optionsOf cleanFile) downState) = Inl ''quota exceeded''"
    "driveSyncStatus f = FAILED \<and> driveSyncError f = Some ''quota exceeded''"
    using down_run [OF example_hasFile(2) example_folder(2) ready_variants(11)] f
    by (simp_all add: cleanFile_options)
  have same: "alerts ?st' = []" "admins ?st' = [''admin@example.org'']"
    "submissions ?st' = [provisionedSub]"
    using fr by (simp_all add: syncFrame_def ready_variants)
  have "findSubmission ''sub-1'' ?st' = Some provisionedSub"
    by (simp add: findSubmission_def same provisionedSub_def)
  then have "alerts (sendDriveSyncFailureAlert ''sub-1'' ''quota exceeded'' ?st')
               = [(''admin@example.org'', ''REF-000001'', ''quota exceeded'')]"
    by (simp add: alert_would_be_sent same provisionedSub_def)
  then show ?thesis
    using run f same by (simp add: uploadToDriveAsync_alerts ready_variants)
qed

theorem exhausted_sync_sends_no_alert_witness:
  "alerts (snd (DriveService_uploadFile (optionsOf cleanFile) downState)) = [] \<and>
   alerts (uploadToDriveAsync (\<lambda>k. Some cleanFile) downState) = []"
  using exhausted_sync_sends_no_alert [of "\<lambda>k. Some cleanFile"] by simp

section \<open>Properties of folder resolution\<close>

lemma showNat_digit: "n < 10 \<Longrightarrow> showNat n = [digitChar n]"
  by (simp add: showNat.simps)

lemma listFolders_ok:
  "faults d = [] \<Longrightarrow>
   listFolders name parent d =
     (Inr (foldersNamed name parent d), d\<lparr>apiCalls := apiCalls d @ [FilesList name parent]\<rparr>)"
  by (simp add: listFolders_def apiCall_def foldersNamed_def)

lemma createFolder_ok:
  "faults d = [] \<Longrightarrow>
   createFolder name parent d =
     (Inr (newDriveId d),
      d\<lparr>apiCalls := apiCalls d @ [CreateFolder name parent],
        folders := folders d @
          [\<lparr>folderId = newDriveId d, folderName = name, folderParent = parent\<rparr>]\<rparr>)"
  by (simp add: createFolder_def apiCall_def newDriveId_def Let_def)

lemma getOrCreateFolder_found:
  "faults d = [] \<Longrightarrow> foldersNamed name parent d = f # fs \<Longrightarrow>
   getOrCreateFolder name parent d =
     (Inr (folderId f), d\<lparr>apiCalls := apiCalls d @ [FilesList name parent]\<rparr>)"
  by (simp add: getOrCreateFolder_def listFolders_ok getOrCreateFolder_resume_def)

lemma getOrCreateFolder_created:
  "faults d = [] \<Longrightarrow> foldersNamed name parent d = [] \<Longrightarrow>
   getOrCreateFolder name parent d =
     (Inr (newDriveId d),
      d\<lparr>apiCalls := apiCalls d @ [FilesList name parent, CreateFolder name parent],
        folders := folders d @
          [\<lparr>folderId = newDriveId d, folderName = name, folderParent = parent\<rparr>]\<rparr>)"
  by (simp add: getOrCreateFolder_def listFolders_ok getOrCreateFolder_resume_def
        createFolder_ok newDriveId_def)

text \<open>Resolving a segment twice in a row on a working Drive: the second resolution only
  lists, and returns the id the first one returned.\<close>

lemma getOrCreateFolder_twice:
  assumes "faults d = []"
  shows "let r1 = getOrCreateFolder name parent d;
             r2 = getOrCreateFolder name parent (snd r1)
         in (\<exists>i. fst r1 = Inr i \<and> fst r2 = Inr i) \<and>
            folders (snd r2) = folders (snd r1) \<and>
            apiCalls (snd r1) =
              apiCalls d @ (if foldersNamed name parent d = []
                            then [FilesList name parent, CreateFolder name parent]
                            else [FilesList name parent]) \<and>
            apiCalls (snd r2) = apiCalls (snd r1) @ [FilesList name parent]"
proof (cases "foldersNamed name parent d")
  case Nil
  define d1 where
    "d1 = d\<lparr>apiCalls := apiCalls d @ [FilesList name parent, CreateFolder name parent],
            folders := folders d @
              [\<lparr>folderId = newDriveId d, folderName = name, folderParent = parent\<rparr>]\<rparr>"
  have r1: "getOrCreateFolder name parent d = (Inr (newDriveId d), d1)"
    unfolding d1_def using assms Nil by (rule getOrCreateFolder_created)
  have "foldersNamed name parent d1 =
          [\<lparr>folderId = newDriveId d, folderName = name, folderParent = parent\<rparr>]"
    using Nil by (simp add: d1_def foldersNamed_def)
  moreover have "faults d1 = []"
    using assms by (simp add: d1_def)
  ultimately have r2: "getOrCreateFolder name parent d1 =
      (Inr (newDriveId d), d1\<lparr>apiCalls := apiCalls d1 @ [FilesList name parent]\<rparr>)"
    using getOrCreateFolder_found [of d1 name parent] by simp
  show ?thesis
    using Nil by (simp add: r1 r2 Let_def) (simp add: d1_def)
next
  case (Cons f fs)
  define d1 where "d1 = d\<lparr>apiCalls := apiCalls d @ [FilesList name parent]\<rparr>"
  have r1: "getOrCreateFolder name parent d = (Inr (folderId f), d1)"
    unfolding d1_def using assms Cons by (rule getOrCreateFolder_found)
  have "foldersNamed name parent d1 = f # fs" and "faults d1 = []"
    using Cons assms by (simp_all add: d1_def foldersNamed_def)
  then have r2: "getOrCreateFolder name parent d1 =
      (Inr (folderId f), d1\<lparr>apiCalls := apiCalls d1 @ [FilesList name parent]\<rparr>)"
    using getOrCreateFolder_found [of d1 name parent] by simp
  show ?thesis
    using Cons by (simp add: r1 r2 Let_def) (simp add: d1_def)
qed

subsection \<open>Provisioning twice, and two callers at once\<close>

lemma driveOf_fields:
  "folders (driveOf fs cs) = fs" "uploads (driveOf fs cs) = []"
  "apiCalls (driveOf fs cs) = cs" "faults (driveOf fs cs) = []"
  by (simp_all add: driveOf_def)

lemma newDriveId_driveOf: "newDriveId (driveOf fs cs) = ''drv-'' @ showNat (length fs)"
  by (simp add: newDriveId_def driveOf_def)

lemma getOrCreateFolder_driveOf_created:
  assumes "foldersNamed name parent (driveOf fs cs) = []"
  shows "getOrCreateFolder name parent (driveOf fs cs) =
           (Inr (''drv-'' @ showNat (length fs)),
            driveOf (fs @ [remoteFolder (''drv-'' @ showNat (length fs)) name parent])
                    (cs @ [FilesList name parent, CreateFolder name parent]))"
  using getOrCreateFolder_created [OF driveOf_fields(4) assms]
  by (simp add: newDriveId_driveOf remoteFolder_def) (simp add: driveOf_def)

lemma getOrCreateFolder_driveOf_found:
  assumes "foldersNamed name parent (driveOf fs cs) = f # rest"
  shows "getOrCreateFolder name parent (driveOf fs cs) =
           (Inr (folderId f), driveOf fs (cs @ [FilesList name parent]))"
  using getOrCreateFolder_found [OF driveOf_fields(4) assms]
  by (simp add: driveOf_def)

lemma createFolder_driveOf:
  "createFolder name parent (driveOf fs cs) =
     (Inr (''drv-'' @ showNat (length fs)),
      driveOf (fs @ [remoteFolder (''drv-'' @ showNat (length fs)) name parent])
              (cs @ [CreateFolder name parent]))"
  using createFolder_ok [OF driveOf_fields(4), of name parent fs cs]
  by (simp add: newDriveId_driveOf remoteFolder_def) (simp add: driveOf_def)

lemma createSubmissionFolder_ok:
  assumes "getOrCreateFolder year rootFolderId (drive st) = (Inr y, d1)"
    and "getOrCreateFolder month y d1 = (Inr m, d2)"
    and "createFolder refId m d2 = (Inr leaf, d3)"
    and "\<exists>s \<in> set (submissions st). subId s = sid"
  shows "fst (createSubmissionFolder rootFolderId year month sid refId st) =
           Inr (leaf, ''https://drive.google.com/drive/folders/'' @ leaf)"
    and "drive (snd (createSubmissionFolder rootFolderId year month sid refId st)) = d3"
    and "map subId (submissions (snd (createSubmissionFolder rootFolderId year month sid refId st)))
           = map subId (submissions st)"
  using assms
  by (simp_all add: createSubmissionFolder_def createSubmissionFolder_try_def
        updateSubmission_def Let_def o_def cong: if_cong)

lemma emptyDrive_driveOf: "emptyDrive = driveOf [] []"
  by (simp add: emptyDrive_def driveOf_def)

lemma year_created:
  "getOrCreateFolder ''2025'' ''root'' (driveOf [] []) =
     (Inr ''drv-0'',
      driveOf [remoteFolder ''drv-0'' ''2025'' ''root'']
              [FilesList ''2025'' ''root'', CreateFolder ''2025'' ''root''])"
proof -
  have "foldersNamed ''2025'' ''root'' (driveOf [] []) = []"
    by (simp add: foldersNamed_def driveOf_def)
  from getOrCreateFolder_driveOf_created [OF this] show ?thesis
    by (simp add: showNat_digit digitChar_def)
qed

lemma month_created:
  "getOrCreateFolder ''March'' ''drv-0''
     (driveOf [remoteFolder ''drv-0'' ''2025'' ''root''] cs) =
     (Inr ''drv-1'',
      driveOf [remoteFolder ''drv-0'' ''2025'' ''root'',
               remoteFolder ''drv-1'' ''March'' ''drv-0'']
              (cs @ [FilesList ''March'' ''drv-0'', CreateFolder ''March'' ''drv-0'']))"
proof -
  have "foldersNamed ''March'' ''drv-0'' (driveOf [remoteFolder ''drv-0'' ''2025'' ''root''] cs) = []"
    by (simp add: foldersNamed_def driveOf_def remoteFolder_def)
  from getOrCreateFolder_driveOf_created [OF this] show ?thesis
    by (simp add: showNat_digit digitChar_def)
qed

lemma leaf_created:
  "createFolder ''REF-000001'' ''drv-1''
     (driveOf [remoteFolder ''drv-0'' ''2025'' ''root'',
               remoteFolder ''drv-1'' ''March'' ''drv-0''] cs) =
     (Inr ''drv-2'',
      driveOf [remoteFolder ''drv-0'' ''2025'' ''root'',
               remoteFolder ''drv-1'' ''March'' ''drv-0'',
               remoteFolder ''drv-2'' ''REF-000001'' ''drv-1'']
              (cs @ [CreateFolder ''REF-000001'' ''drv-1'']))"
  using createFolder_driveOf [of "''REF-000001''" "''drv-1''"
          "[remoteFolder ''drv-0'' ''2025'' ''root'', remoteFolder ''drv-1'' ''March'' ''drv-0'']" cs]
  by (simp add: showNat_digit digitChar_def)

lemma year_found:
  "getOrCreateFolder ''2025'' ''root''
     (driveOf [remoteFolder ''drv-0'' ''2025'' ''root'',
               remoteFolder ''drv-1'' ''March'' ''drv-0'',
               remoteFolder ''drv-2'' ''REF-000001'' ''drv-1''] cs) =
     (Inr ''drv-0'',
      driveOf [remoteFolder ''drv-0'' ''2025'' ''root'',
               remoteFolder ''drv-1'' ''March'' ''drv-0'',
               remoteFolder ''drv-2'' ''REF-000001'' ''drv-1'']
              (cs @ [FilesList ''2025'' ''root'']))"
proof -
  have "foldersNamed ''2025'' ''root''
          (driveOf [remoteFolder ''drv-0'' ''2025'' ''root'',
               remoteFolder ''drv-1'' ''March'' ''drv-0'',
               remoteFolder ''drv-2'' ''REF-000001'' ''drv-1''] cs) =
        remoteFolder ''drv-0'' ''2025'' ''root'' # []"
    by (simp add: foldersNamed_def driveOf_def remoteFolder_def)
  from getOrCreateFolder_driveOf_found [OF this] show ?thesis
    by (simp add: remoteFolder_def)
qed

lemma month_found:
  "getOrCreateFolder ''March'' ''drv-0''
     (driveOf [remoteFolder ''drv-0'' ''2025'' ''root'',
               remoteFolder ''drv-1'' ''March'' ''drv-0'',
               remoteFolder ''drv-2'' ''REF-000001'' ''drv-1''] cs) =
     (Inr ''drv-1'',
      driveOf [remoteFolder ''drv-0'' ''2025'' ''root'',
               remoteFolder ''drv-1'' ''March'' ''drv-0'',
               remoteFolder ''drv-2'' ''REF-000001'' ''drv-1'']
              (cs @ [FilesList ''March'' ''drv-0'']))"
proof -
  have "foldersNamed ''March'' ''drv-0''
          (driveOf [remoteFolder ''drv-0'' ''2025'' ''root'',
               remoteFolder ''drv-1'' ''March'' ''drv-0'',
               remoteFolder ''drv-2'' ''REF-000001'' ''drv-1''] cs) =
        remoteFolder ''drv-1'' ''March'' ''drv-0'' # []"
    by (simp add: foldersNamed_def driveOf_def remoteFolder_def)
  from getOrCreateFolder_driveOf_found [OF this] show ?thesis
    by (simp add: remoteFolder_def)
qed

lemma leaf_created_again:
  "createFolder ''REF-000001'' ''drv-1''
     (driveOf [remoteFolder ''drv-0'' ''2025'' ''root'',
               remoteFolder ''drv-1'' ''March'' ''drv-0'',
               remoteFolder ''drv-2'' ''REF-000001'' ''drv-1''] cs) =
     (Inr ''drv-3'',
      driveOf [remoteFolder ''drv-0'' ''2025'' ''root'',
               remoteFolder ''drv-1'' ''March'' ''drv-0'',
               remoteFolder ''drv-2'' ''REF-000001'' ''drv-1'',
               remoteFolder ''drv-3'' ''REF-000001'' ''drv-1'']
              (cs @ [CreateFolder ''REF-000001'' ''drv-1'']))"
  using createFolder_driveOf [of "''REF-000001''" "''drv-1''"
          "[remoteFolder ''drv-0'' ''2025'' ''root'', remoteFolder ''drv-1'' ''March'' ''drv-0'',
            remoteFolder ''drv-2'' ''REF-000001'' ''drv-1'']" cs]
  by (simp add: showNat_digit digitChar_def)

lemma archiveState_fields:
  "drive archiveState = driveOf [] []" "submissions archiveState = [unprovisionedSub]"
  by (simp_all add: archiveState_def emptyState_def emptyDrive_driveOf)

lemma archive_submission: "\<exists>s \<in> set (submissions archiveState). subId s = ''sub-1''"
  by (simp add: archiveState_fields unprovisionedSub_def)

lemma firstProvision_result:
  "fst firstProvision = Inr (''drv-2'', ''https://drive.google.com/drive/folders/drv-2'')"
  "drive (snd firstProvision) =
     driveOf [remoteFolder ''drv-0'' ''2025'' ''root'',
              remoteFolder ''drv-1'' ''March'' ''drv-0'',
              remoteFolder ''drv-2'' ''REF-000001'' ''drv-1'']
             [FilesList ''2025'' ''root'', CreateFolder ''2025'' ''root'',
              FilesList ''March'' ''drv-0'', CreateFolder ''March'' ''drv-0'',
              CreateFolder ''REF-000001'' ''drv-1'']"
  "map subId (submissions (snd firstProvision)) = [''sub-1'']"
proof -
  have y: "getOrCreateFolder ''2025'' ''root'' (drive archiveState) =
     (Inr ''drv-0'',
      driveOf [remoteFolder ''drv-0'' ''2025'' ''root'']
              [FilesList ''2025'' ''root'', CreateFolder ''2025'' ''root''])"
    using year_created by (simp add: archiveState_fields)
  note r = createSubmissionFolder_ok [OF y month_created leaf_created archive_submission]
  show "fst firstProvision = Inr (''drv-2'', ''https://drive.google.com/drive/folders/drv-2'')"
    using r(1) by (simp add: firstProvision_def)
  show "drive (snd firstProvision) =
     driveOf [remoteFolder ''drv-0'' ''2025'' ''root'',
              remoteFolder ''drv-1'' ''March'' ''drv-0'',
              remoteFolder ''drv-2'' ''REF-000001'' ''drv-1'']
             [FilesList ''2025'' ''root'', CreateFolder ''2025'' ''root'',
              FilesList ''March'' ''drv-0'', CreateFolder ''March'' ''drv-0'',
              CreateFolder ''REF-000001'' ''drv-1'']"
    using r(2) by (simp add: firstProvision_def)
  show "map subId (submissions (snd firstProvision)) = [''sub-1'']"
    using r(3) by (simp add: firstProvision_def archiveState_fields unprovisionedSub_def)
qed

lemma secondProvision_result:
  "fst secondProvision = Inr (''drv-3'', ''https://drive.google.com/drive/folders/drv-3'')"
  "drive (snd secondProvision) =
     driveOf [remoteFolder ''drv-0'' ''2025'' ''root'',
              remoteFolder ''drv-1'' ''March'' ''drv-0'',
              remoteFolder ''drv-2'' ''REF-000001'' ''drv-1'',
              remoteFolder ''drv-3'' ''REF-000001'' ''drv-1'']
             [FilesList ''2025'' ''root'', CreateFolder ''2025'' ''root'',
              FilesList ''March'' ''drv-0'', CreateFolder ''March'' ''drv-0'',
              CreateFolder ''REF-000001'' ''drv-1'',
              FilesList ''2025'' ''root'', FilesList ''March'' ''drv-0'',
              CreateFolder ''REF-000001'' ''drv-1'']"
proof -
  have "''sub-1'' \<in> set (map subId (submissions (snd firstProvision)))"
    by (simp add: firstProvision_result(3))
  then have sub: "\<exists>s \<in> set (submissions (snd firstProvision)). subId s = ''sub-1''"
    by auto
  have y: "getOrCreateFolder ''2025'' ''root'' (drive (snd firstProvision)) =
     (Inr ''drv-0'',
      driveOf [remoteFolder ''drv-0'' ''2025'' ''root'',
               remoteFolder ''drv-1'' ''March'' ''drv-0'',
               remoteFolder ''drv-2'' ''REF-000001'' ''drv-1'']
              ([FilesList ''2025'' ''root'', CreateFolder ''2025'' ''root'',
                FilesList ''March'' ''drv-0'', CreateFolder ''March'' ''drv-0'',
                CreateFolder ''REF-000001'' ''drv-1''] @ [FilesList ''2025'' ''root'']))"
    unfolding firstProvision_result(2) by (rule year_found)
  note r = createSubmissionFolder_ok [OF y month_found leaf_created_again sub]
  show "fst secondProvision = Inr (''drv-3'', ''https://drive.google.com/drive/folders/drv-3'')"
    using r(1) by (simp add: secondProvision_def)
  show "drive (snd secondProvision) =
     driveOf [remoteFolder ''drv-0'' ''2025'' ''root'',
              remoteFolder ''drv-1'' ''March'' ''drv-0'',
              remoteFolder ''drv-2'' ''REF-000001'' ''drv-1'',
              remoteFolder ''drv-3'' ''REF-000001'' ''drv-1'']
             [FilesList ''2025'' ''root'', CreateFolder ''2025'' ''root'',
              FilesList ''March'' ''drv-0'', CreateFolder ''March'' ''drv-0'',
              CreateFolder ''REF-000001'' ''drv-1'',
              FilesList ''2025'' ''root'', FilesList ''March'' ''drv-0'',
              CreateFolder ''REF-000001'' ''drv-1'']"
    using r(2) by (simp add: secondProvision_def)
qed

lemma race_result:
  "fst raceListA = Inr [] \<and> fst raceListB = Inr [] \<and>
   fst raceResumeA = Inr ''drv-0'' \<and> fst raceResumeB = Inr ''drv-1'' \<and>
   folders (snd raceResumeB) =
     [remoteFolder ''drv-0'' ''2025'' ''root'', remoteFolder ''drv-1'' ''2025'' ''root'']"
proof -
  have a: "raceListA = (Inr [], driveOf [] [FilesList ''2025'' ''root''])"
    by (simp add: raceListA_def emptyDrive_driveOf listFolders_ok foldersNamed_def driveOf_def)
  have b: "raceListB =
      (Inr [], driveOf [] [FilesList ''2025'' ''root'', FilesList ''2025'' ''root''])"
    by (simp add: raceListB_def a listFolders_ok foldersNamed_def driveOf_def)
  have c: "raceResumeA =
      (Inr ''drv-0'', driveOf [remoteFolder ''drv-0'' ''2025'' ''root'']
         [FilesList ''2025'' ''root'', FilesList ''2025'' ''root'', CreateFolder ''2025'' ''root''])"
    by (simp add: raceResumeA_def a b getOrCreateFolder_resume_def createFolder_driveOf
          showNat_digit digitChar_def)
  have d: "raceResumeB =
      (Inr ''drv-1'', driveOf [remoteFolder ''drv-0'' ''2025'' ''root'',
                               remoteFolder ''drv-1'' ''2025'' ''root'']
         [FilesList ''2025'' ''root'', FilesList ''2025'' ''root'', CreateFolder ''2025'' ''root'',
          CreateFolder ''2025'' ''root''])"
    by (simp add: raceResumeB_def b c getOrCreateFolder_resume_def createFolder_driveOf
          showNat_digit digitChar_def)
  show ?thesis
    by (simp add: a b c d driveOf_fields)
qed

text \<open>
  C2, as stated, fails twice. Provisioning the same submission's folder a second time
  calls \<^verbatim>\<open>createFolder\<close> for the leaf segment again and yields a second folder of the
  same name under the same month folder, with a different id. And two callers that
  resolve the same year segment at once, both answered by the listing before either
  creates, create the folder twice.
\<close>

theorem duplicate_folders_counterexample:
  "fst firstProvision = Inr (''drv-2'', ''https://drive.google.com/drive/folders/drv-2'') \<and>
   fst secondProvision = Inr (''drv-3'', ''https://drive.google.com/drive/folders/drv-3'') \<and>
   filter (\<lambda>c. c = CreateFolder ''REF-000001'' ''drv-1'')
       (apiCalls (drive (snd secondProvision))) =
     [CreateFolder ''REF-000001'' ''drv-1'', CreateFolder ''REF-000001'' ''drv-1''] \<and>
   map folderId (foldersNamed ''REF-000001'' ''drv-1'' (drive (snd secondProvision))) =
     [''drv-2'', ''drv-3''] \<and>
   fst raceListA = Inr [] \<and> fst raceListB = Inr [] \<and>
   fst raceResumeA = Inr ''drv-0'' \<and> fst raceResumeB = Inr ''drv-1'' \<and>
   map folderId (foldersNamed ''2025'' ''root'' (snd raceResumeB)) = [''drv-0'', ''drv-1'']"
  using race_result
  by (simp add: firstProvision_result secondProvision_result foldersNamed_def driveOf_fields
        remoteFolder_def)

text \<open>
  C2, amended. Resolving the same (name, parent) segment twice in sequence through
  \<^verbatim>\<open>getOrCreateFolder\<close>, on a Drive whose calls succeed, yields one folder id: the
  second resolution returns the id of the first and makes no \<^verbatim>\<open>createFolder\<close> call,
  and the first makes exactly one such call if the segment did not exist and none if it
  did. This covers the year and month segments; the leaf folder is created by a plain
  \<^verbatim>\<open>createFolder\<close> on every provisioning, and nothing serialises concurrent callers.
\<close>

theorem getOrCreateFolder_sequentially_idempotent:
  assumes "faults d = []"
  shows "let r1 = getOrCreateFolder name parent d;
             r2 = getOrCreateFolder name parent (snd r1)
         in (\<exists>i. fst r1 = Inr i \<and> fst r2 = Inr i) \<and>
            folders (snd r2) = folders (snd r1) \<and>
            apiCalls (snd r1) =
              apiCalls d @ (if foldersNamed name parent d = []
                            then [FilesList name parent, CreateFolder name parent]
                            else [FilesList name parent]) \<and>
            apiCalls (snd r2) = apiCalls (snd r1) @ [FilesList name parent]"
  using assms by (rule getOrCreateFolder_twice)

theorem getOrCreateFolder_sequentially_idempotent_witness:
  "fst (getOrCreateFolder ''2025'' ''root'' emptyDrive) = Inr ''drv-0'' \<and>
   fst (getOrCreateFolder ''2025'' ''root''
          (snd (getOrCreateFolder ''2025'' ''root'' emptyDrive))) = Inr ''drv-0'' \<and>
   apiCalls (snd (getOrCreateFolder ''2025'' ''root''
          (snd (getOrCreateFolder ''2025'' ''root'' emptyDrive)))) =
     [FilesList ''2025'' ''root'', CreateFolder ''2025'' ''root'', FilesList ''2025'' ''root'']"
proof -
  have e: "faults emptyDrive = []" "foldersNamed ''2025'' ''root'' emptyDrive = []"
    "apiCalls emptyDrive = []"
    by (simp_all add: emptyDrive_def foldersNamed_def)
  have "fst (getOrCreateFolder ''2025'' ''root'' emptyDrive) = Inr ''drv-0''"
    by (simp add: getOrCreateFolder_created e)
       (simp add: newDriveId_def emptyDrive_def showNat_digit digitChar_def)
  then show ?thesis
    using getOrCreateFolder_sequentially_idempotent [OF e(1), of "''2025''" "''root''"]
    by (simp add: Let_def e)
qed

section \<open>Properties of the hand-over from scan to sync\<close>

lemma run_queued:
  "runSyncTask obs k SyncQueued = runSyncTask obs (Suc k) (syncFirstRead (obs k))"
  by (simp add: runSyncTask.simps [of _ _ SyncQueued])

lemma run_polling:
  "runSyncTask obs k (SyncPolling i) = runSyncTask obs (Suc k) (syncPoll i (obs k))"
  by (simp add: runSyncTask.simps [of _ _ "SyncPolling i"])

lemma run_refetch: "runSyncTask obs k SyncRefetch = syncRefetch (obs k)"
  by (simp add: runSyncTask.simps [of _ _ SyncRefetch])

lemma run_done:
  "runSyncTask obs k SyncFinished = SyncFinished"
  "runSyncTask obs k (SyncCleared f) = SyncCleared f"
  "runSyncTask obs k SyncIdle = SyncIdle"
  by (simp_all add: runSyncTask.simps [of _ _ SyncFinished]
        runSyncTask.simps [of _ _ "SyncCleared f"] runSyncTask.simps [of _ _ SyncIdle])

lemma waitingRead_facts:
  assumes "waitingRead r"
  shows "\<not> scanSettled r" and "syncRefetch r = SyncFinished" and "syncFirstRead r = SyncPolling 0"
  using assms
  by (auto simp: waitingRead_def scanSettled_def syncRefetch_def syncFirstRead_def awaitsScan_def
           split: option.splits)

lemma cleanRead_facts:
  assumes "cleanRead r"
  shows "scanSettled r" and "\<exists>f. syncRefetch r = SyncCleared f \<and> r = Some f"
    and "syncFirstRead r = SyncRefetch"
  using assms
  by (auto simp: cleanRead_def scanSettled_def syncRefetch_def syncFirstRead_def awaitsScan_def
           split: option.splits)

text \<open>The task clears a file for upload only on a read that showed it clean, and that
  read is among the next \<open>readsLeft\<close> reads.\<close>

lemma cleared_only_after_clean_read:
  "runSyncTask obs k pc = SyncCleared f \<Longrightarrow> pc \<noteq> SyncCleared f \<Longrightarrow>
   virusScanStatus f = Clean \<and> (\<exists>j. k \<le> j \<and> j < k + readsLeft pc \<and> obs j = Some f)"
proof (induction obs k pc rule: runSyncTask.induct)
  case (1 obs k pc)
  show ?case
  proof (cases pc)
    case SyncIdle
    with "1.prems" show ?thesis by (simp add: run_done)
  next
    case SyncFinished
    with "1.prems" show ?thesis by (simp add: run_done)
  next
    case (SyncCleared g)
    with "1.prems" show ?thesis by (simp add: run_done)
  next
    case SyncRefetch
    with "1.prems" have "syncRefetch (obs k) = SyncCleared f"
      by (simp add: run_refetch)
    then have "obs k = Some f \<and> virusScanStatus f = Clean"
      by (auto simp: syncRefetch_def split: option.splits if_splits)
    then show ?thesis
      using SyncRefetch by (auto simp: readsLeft_def)
  next
    case SyncQueued
    let ?pc' = "syncFirstRead (obs k)"
    have run: "runSyncTask obs (Suc k) ?pc' = SyncCleared f"
      using "1.prems" SyncQueued by (simp add: run_queued)
    have ne: "?pc' \<noteq> SyncCleared f"
      by (simp add: syncFirstRead_def split: option.splits)
    have bound: "readsLeft ?pc' < readsLeft SyncQueued"
      by (simp add: syncFirstRead_def readsLeft_def pollCeiling_def split: option.splits)
    from "1.IH"(1) [OF SyncQueued run ne] obtain j where
      "virusScanStatus f = Clean" "Suc k \<le> j" "j < Suc k + readsLeft ?pc'" "obs j = Some f"
      by blast
    then show ?thesis
      using bound SyncQueued by (intro conjI exI [of _ j]) simp_all
  next
    case (SyncPolling i)
    let ?pc' = "syncPoll i (obs k)"
    have run: "runSyncTask obs (Suc k) ?pc' = SyncCleared f"
      using "1.prems" SyncPolling by (simp add: run_polling)
    have ne: "?pc' \<noteq> SyncCleared f"
      by (simp add: syncPoll_def)
    have bound: "readsLeft ?pc' < readsLeft (SyncPolling i)"
      by (auto simp: syncPoll_def readsLeft_def pollCeiling_def)
    from "1.IH"(2) [OF SyncPolling run ne] obtain j where
      "virusScanStatus f = Clean" "Suc k \<le> j" "j < Suc k + readsLeft ?pc'" "obs j = Some f"
      by blast
    then show ?thesis
      using bound SyncPolling by (intro conjI exI [of _ j]) simp_all
  qed
qed

text \<open>A scan that is still pending or running at every read: the polling runs into its
  ceiling, the last read is not clean, and the task ends.\<close>

lemma polling_hits_ceiling:
  "n = pollCeiling - i \<Longrightarrow> i < pollCeiling \<Longrightarrow>
   (\<forall>j \<le> n. waitingRead (obs (k + j))) \<Longrightarrow>
   runSyncTask obs k (SyncPolling i) = SyncFinished"
proof (induction n arbitrary: i k)
  case 0
  then show ?case by simp
next
  case (Suc n)
  have w0: "waitingRead (obs k)" and w1: "waitingRead (obs (Suc k))"
    using Suc.prems(3) [rule_format, of 0] Suc.prems(3) [rule_format, of 1] by simp_all
  show ?case
  proof (cases "Suc i < pollCeiling")
    case True
    have "runSyncTask obs (Suc k) (SyncPolling (Suc i)) = SyncFinished"
    proof (rule Suc.IH)
      show "n = pollCeiling - Suc i" using Suc.prems(1) by simp
      show "Suc i < pollCeiling" by (rule True)
      show "\<forall>j \<le> n. waitingRead (obs (Suc k + j))"
        using Suc.prems(3) by (metis Suc_le_mono add_Suc_shift)
    qed
    then show ?thesis
      using True w0 by (simp add: run_polling syncPoll_def waitingRead_facts)
  next
    case False
    then show ?thesis
      using w0 w1 by (simp add: run_polling syncPoll_def run_refetch waitingRead_facts)
  qed
qed

lemma task_gives_up:
  assumes "\<forall>k \<le> Suc pollCeiling. waitingRead (obs k)"
  shows "runSyncTask obs 0 SyncQueued = SyncFinished"
proof -
  have "waitingRead (obs 0)"
    using assms by simp
  moreover have "runSyncTask obs (Suc 0) (SyncPolling 0) = SyncFinished"
  proof (rule polling_hits_ceiling [OF refl])
    show "0 < pollCeiling" by (simp add: pollCeiling_def)
    show "\<forall>j \<le> pollCeiling - 0. waitingRead (obs (Suc 0 + j))"
      using assms by simp
  qed
  ultimately show ?thesis
    by (simp add: run_queued waitingRead_facts)
qed

text \<open>A scan seen pending or running before read \<open>j\<close> and clean from read \<open>j\<close> on,
  with \<open>j\<close> inside the polling window: the task clears the file for upload.\<close>

lemma polling_sees_clean:
  "n = j - Suc i \<Longrightarrow> i < pollCeiling \<Longrightarrow> i < j \<Longrightarrow> j \<le> Suc pollCeiling \<Longrightarrow>
   (\<forall>k < j. waitingRead (obs k)) \<Longrightarrow> (\<forall>k \<ge> j. cleanRead (obs k)) \<Longrightarrow>
   \<exists>f. obs (if j \<le> pollCeiling then Suc j else j) = Some f \<and>
       runSyncTask obs (Suc i) (SyncPolling i) = SyncCleared f"
proof (induction n arbitrary: i)
  case 0
  then have j: "j = Suc i" by simp
  then have "cleanRead (obs (Suc i))" and "cleanRead (obs (Suc (Suc i)))"
    using "0.prems"(6) by simp_all
  moreover have "j \<le> pollCeiling"
    using j "0.prems"(2) by simp
  ultimately show ?case
    using cleanRead_facts(2) [of "obs (Suc (Suc i))"] j
    by (auto simp: run_polling syncPoll_def cleanRead_facts(1) run_refetch)
next
  case (Suc n)
  then have lt: "Suc i < j" by simp
  then have w: "waitingRead (obs (Suc i))"
    using Suc.prems(5) by simp
  show ?case
  proof (cases "Suc i < pollCeiling")
    case True
    have "\<exists>f. obs (if j \<le> pollCeiling then Suc j else j) = Some f \<and>
            runSyncTask obs (Suc (Suc i)) (SyncPolling (Suc i)) = SyncCleared f"
      using Suc.prems lt True by (intro Suc.IH) simp_all
    then show ?thesis
      using True w by (simp add: run_polling syncPoll_def waitingRead_facts)
  next
    case False
    then have "Suc i = pollCeiling"
      using Suc.prems(2) by simp
    then have j: "j = Suc (Suc i)" "\<not> j \<le> pollCeiling"
      using lt Suc.prems(4) by simp_all
    then have "cleanRead (obs (Suc (Suc i)))"
      using Suc.prems(6) by simp
    then show ?thesis
      using False w cleanRead_facts(2) [of "obs (Suc (Suc i))"] j
      by (auto simp: run_polling syncPoll_def waitingRead_facts run_refetch)
  qed
qed

lemma task_starts_sync:
  assumes "j \<le> Suc pollCeiling"
    and "\<forall>k < j. waitingRead (obs k)" and "\<forall>k \<ge> j. cleanRead (obs k)"
  shows "\<exists>f. obs (if j \<le> pollCeiling then Suc j else j) = Some f \<and>
             runSyncTask obs 0 SyncQueued = SyncCleared f"
proof (cases j)
  case 0
  then have "cleanRead (obs 0)" and "cleanRead (obs (Suc 0))"
    using assms(3) by simp_all
  then show ?thesis
    using cleanRead_facts(2) [of "obs (Suc 0)"] 0
    by (auto simp: run_queued cleanRead_facts(3) run_refetch)
next
  case (Suc m)
  then have w: "waitingRead (obs 0)"
    using assms(2) by simp
  have "\<exists>f. obs (if j \<le> pollCeiling then Suc j else j) = Some f \<and>
          runSyncTask obs (Suc 0) (SyncPolling 0) = SyncCleared f"
    using assms Suc by (intro polling_sees_clean [OF refl]) (simp_all add: pollCeiling_def)
  then show ?thesis
    using w by (simp add: run_queued waitingRead_facts)
qed

text \<open>What the task does with its verdict: the Drive upload for a cleared file, nothing
  otherwise.\<close>

lemma cleared_in_window:
  assumes run: "runSyncTask obs 0 SyncQueued = SyncCleared f"
  shows "virusScanStatus f = Clean" and "\<exists>k \<le> Suc pollCeiling. obs k = Some f"
proof -
  from cleared_only_after_clean_read [OF run] obtain k where
    c: "virusScanStatus f = Clean" and k: "k < readsLeft SyncQueued" "obs k = Some f"
    by auto
  show "virusScanStatus f = Clean"
    by (rule c)
  have "k \<le> Suc pollCeiling"
    using k(1) by (simp add: readsLeft_def)
  with k(2) show "\<exists>k \<le> Suc pollCeiling. obs k = Some f"
    by blast
qed

lemma upload_when_cleared:
  "runSyncTask obs 0 SyncQueued = SyncCleared f \<Longrightarrow>
   uploadToDriveAsync obs st = snd (DriveService_uploadFile (optionsOf f) st)"
  by (simp add: uploadToDriveAsync_def)

lemma no_upload_unless_cleared:
  "\<forall>f. runSyncTask obs 0 SyncQueued \<noteq> SyncCleared f \<Longrightarrow> uploadToDriveAsync obs st = st"
  by (cases "runSyncTask obs 0 SyncQueued") (simp_all add: uploadToDriveAsync_def)


subsection \<open>The example scans\<close>

lemma scanningFile_fields:
  "fileId scanningFile = ''f1''" "virusScanStatus scanningFile = Scanning"
  "driveSyncStatus scanningFile = PENDING" "filePath scanningFile = ''/uploads/f1.pdf''"
  by (simp_all add: scanningFile_def storedFile_def)

lemma scanningState_files: "files scanningState = [scanningFile]"
  by (simp add: scanningState_def)

lemma slowScanReads_waiting: "waitingRead (slowScanReads k)"
  by (simp add: slowScanReads_def findFile_def scanningState_files scanningFile_fields
        waitingRead_def awaitsScan_def)

lemma quickScanReads_reads:
  "\<forall>k < 3. waitingRead (quickScanReads k)" "\<forall>k \<ge> 3. cleanRead (quickScanReads k)"
  by (simp_all add: quickScanReads_def waitingRead_def cleanRead_def awaitsScan_def
        scanningFile_fields cleanFile_fields)

lemma slow_scan_then_clean:
  "map virusScanStatus
     (files (snd (scanVerdict ''f1'' ''/uploads/f1.pdf'' ClamClean scanningState))) = [Clean]"
  "map driveSyncStatus
     (files (snd (scanVerdict ''f1'' ''/uploads/f1.pdf'' ClamClean scanningState))) = [PENDING]"
  by (simp_all add: scanVerdict_def updateFile_def scanningState_files scanningFile_fields)

text \<open>The upload of the clean example file to a Drive that fails twice and then works.\<close>

lemma flaky_sync_result:
  "map driveSyncStatus
     (files (snd (DriveService_uploadFile (optionsOf cleanFile) flakyState))) = [SYNCED]"
proof -
  have fr: "syncFrame (optFileId (optionsOf cleanFile)) flakyState
              (snd (DriveService_uploadFile (optionsOf cleanFile) flakyState))"
    by (rule DriveService_uploadFile_syncFrame
          [of _ _ "fst (DriveService_uploadFile (optionsOf cleanFile) flakyState)"]) simp
  have "map fileId (files (snd (DriveService_uploadFile (optionsOf cleanFile) flakyState)))
          = [''f1'']"
    using syncFrame_ids [OF fr] by (simp add: ready_variants cleanFile_fields)
  then obtain f where
    f: "files (snd (DriveService_uploadFile (optionsOf cleanFile) flakyState)) = [f]"
      "fileId f = ''f1''"
    by auto
  have d: "disk flakyState (optFilePath (optionsOf cleanFile)) = Some ''0123456789''"
    by (simp add: cleanFile_options ready_variants)
  show ?thesis
    using flaky_run [OF example_hasFile(1) example_folder(1) ready_variants(6) d ready_variants(5)] f
    by (simp add: cleanFile_options)
qed

text \<open>
  C6, as stated, fails: the sync task is started with the scan task and waits for it by
  polling, with a ceiling. A scan still running at each of the task's 32 reads makes the
  task end without syncing and without a trace in the state; when the scan then completes
  clean, the file is clean and its sync is still pending, with no task left to start it.
\<close>

theorem slow_scan_never_syncs_counterexample:
  "runSyncTask slowScanReads 0 SyncQueued = SyncFinished \<and>
   uploadToDriveAsync slowScanReads scanningState = scanningState \<and>
   map virusScanStatus
     (files (snd (scanVerdict ''f1'' ''/uploads/f1.pdf'' ClamClean scanningState))) = [Clean] \<and>
   map driveSyncStatus
     (files (snd (scanVerdict ''f1'' ''/uploads/f1.pdf'' ClamClean scanningState))) = [PENDING]"
proof -
  have "runSyncTask slowScanReads 0 SyncQueued = SyncFinished"
    by (rule task_gives_up) (simp add: slowScanReads_waiting)
  then show ?thesis
    by (simp add: uploadToDriveAsync_def slow_scan_then_clean)
qed

text \<open>
  C6, amended. The sync task of a file starts together with its scan task and waits for
  the scan by polling: one read, up to 30 polls one second apart while the scan is pending
  or running, and one final read. When the task clears a row for upload, that row has a
  clean scan and was returned by one of these at most 32 reads, and what the task does is
  the call of \<^verbatim>\<open>DriveService.uploadFile\<close> with that row's options; when it clears no
  row, it changes nothing. So a change of the state by the task is always the upload of a
  row that was read clean within the window. If the scan is seen pending or running before
  read \<open>j\<close> of the window and clean from read \<open>j\<close> on, the upload is called, for the row
  of the read after \<open>j\<close> (of read \<open>j\<close> itself when \<open>j\<close> is the last read). If the scan
  is still pending or running at every read of the window, the task ends and changes
  nothing.
\<close>

theorem sync_starts_iff_clean_within_polling_window:
  "(runSyncTask obs 0 SyncQueued = SyncCleared f \<longrightarrow>
      virusScanStatus f = Clean \<and> (\<exists>k \<le> Suc pollCeiling. obs k = Some f) \<and>
      uploadToDriveAsync obs st = snd (DriveService_uploadFile (optionsOf f) st)) \<and>
   ((\<forall>g. runSyncTask obs 0 SyncQueued \<noteq> SyncCleared g) \<longrightarrow> uploadToDriveAsync obs st = st) \<and>
   (uploadToDriveAsync obs st \<noteq> st \<longrightarrow>
      (\<exists>g. virusScanStatus g = Clean \<and> (\<exists>k \<le> Suc pollCeiling. obs k = Some g) \<and>
           uploadToDriveAsync obs st = snd (DriveService_uploadFile (optionsOf g) st))) \<and>
   (j \<le> Suc pollCeiling \<and> (\<forall>k < j. waitingRead (obs k)) \<and> (\<forall>k \<ge> j. cleanRead (obs k)) \<longrightarrow>
      (\<exists>g. obs (if j \<le> pollCeiling then Suc j else j) = Some g \<and> virusScanStatus g = Clean \<and>
           runSyncTask obs 0 SyncQueued = SyncCleared g \<and>
           uploadToDriveAsync obs st = snd (DriveService_uploadFile (optionsOf g) st))) \<and>
   ((\<forall>k \<le> Suc pollCeiling. waitingRead (obs k)) \<longrightarrow>
      runSyncTask obs 0 SyncQueued = SyncFinished \<and> uploadToDriveAsync obs st = st)"
proof (intro conjI impI)
  assume run: "runSyncTask obs 0 SyncQueued = SyncCleared f"
  show "virusScanStatus f = Clean"
    using run by (rule cleared_in_window(1))
  show "\<exists>k \<le> Suc pollCeiling. obs k = Some f"
    using run by (rule cleared_in_window(2))
  show "uploadToDriveAsync obs st = snd (DriveService_uploadFile (optionsOf f) st)"
    using run by (rule upload_when_cleared)
next
  assume "\<forall>g. runSyncTask obs 0 SyncQueued \<noteq> SyncCleared g"
  then show "uploadToDriveAsync obs st = st"
    by (rule no_upload_unless_cleared)
next
  assume changed: "uploadToDriveAsync obs st \<noteq> st"
  then obtain g where run: "runSyncTask obs 0 SyncQueued = SyncCleared g"
    using no_upload_unless_cleared [of obs st] by blast
  show "\<exists>g. virusScanStatus g = Clean \<and> (\<exists>k \<le> Suc pollCeiling. obs k = Some g) \<and>
           uploadToDriveAsync obs st = snd (DriveService_uploadFile (optionsOf g) st)"
    using cleared_in_window [OF run] upload_when_cleared [OF run] by blast
next
  assume "j \<le> Suc pollCeiling \<and> (\<forall>k < j. waitingRead (obs k)) \<and> (\<forall>k \<ge> j. cleanRead (obs k))"
  then obtain g where g: "obs (if j \<le> pollCeiling then Suc j else j) = Some g"
      and run: "runSyncTask obs 0 SyncQueued = SyncCleared g"
    using task_starts_sync [of j obs] by blast
  show "\<exists>g. obs (if j \<le> pollCeiling then Suc j else j) = Some g \<and> virusScanStatus g = Clean \<and>
           runSyncTask obs 0 SyncQueued = SyncCleared g \<and>
           uploadToDriveAsync obs st = snd (DriveService_uploadFile (optionsOf g) st)"
    using g run cleared_in_window(1) [OF run] upload_when_cleared [OF run] by blast
next
  assume w: "\<forall>k \<le> Suc pollCeiling. waitingRead (obs k)"
  then show "runSyncTask obs 0 SyncQueued = SyncFinished"
    by (rule task_gives_up)
  then show "uploadToDriveAsync obs st = st"
    by (simp add: uploadToDriveAsync_def)
qed

theorem sync_starts_iff_clean_within_polling_window_witness:
  "uploadToDriveAsync quickScanReads flakyState =
     snd (DriveService_uploadFile (optionsOf cleanFile) flakyState) \<and>
   map driveSyncStatus (files (uploadToDriveAsync quickScanReads flakyState)) = [SYNCED] \<and>
   runSyncTask slowScanReads 0 SyncQueued = SyncFinished \<and>
   uploadToDriveAsync slowScanReads scanningState = scanningState"
proof -
  have "(3::nat) \<le> Suc pollCeiling"
    by (simp add: pollCeiling_def)
  then obtain g where g: "quickScanReads (if 3 \<le> pollCeiling then Suc 3 else 3) = Some g"
    and up: "uploadToDriveAsync quickScanReads flakyState =
               snd (DriveService_uploadFile (optionsOf g) flakyState)"
    using sync_starts_iff_clean_within_polling_window [of quickScanReads _ flakyState 3]
      quickScanReads_reads by blast
  have "g = cleanFile"
    using g by (simp add: quickScanReads_def pollCeiling_def)
  with up have a: "uploadToDriveAsync quickScanReads flakyState =
               snd (DriveService_uploadFile (optionsOf cleanFile) flakyState)"
    by simp
  have b: "runSyncTask slowScanReads 0 SyncQueued = SyncFinished \<and>
           uploadToDriveAsync slowScanReads scanningState = scanningState"
    using sync_starts_iff_clean_within_polling_window [of slowScanReads _ scanningState]
      slowScanReads_waiting by blast
  from a b show ?thesis
    by (simp add: flaky_sync_result)
qed
section \<open>The scan gate as an invariant of the pipeline\<close>

subsection \<open>Frames of the single operations\<close>

lemma list_all2_right:
  "list_all2 P xs ys \<Longrightarrow> y \<in> set ys \<Longrightarrow> \<exists>x \<in> set xs. P x y"
  by (induction rule: list_all2_induct) auto

lemma list_all2_left:
  "list_all2 P xs ys \<Longrightarrow> x \<in> set xs \<Longrightarrow> \<exists>y \<in> set ys. P x y"
  by (induction rule: list_all2_induct) auto

lemma list_all2_update:
  assumes "\<And>f. f \<in> set xs \<Longrightarrow> P f f"
    and "\<And>f. f \<in> set xs \<Longrightarrow> fileId f = fid \<Longrightarrow> P f (upd f)"
  shows "list_all2 P xs (map (\<lambda>f. if fileId f = fid then upd f else f) xs)"
  using assms by (induction xs) auto

lemma scanTouch_same: "scanTouch fid fin f f"
  by (simp add: scanTouch_def)

lemma scanFrame_refl: "scanFrame fid fin st st"
  by (simp add: scanFrame_def list_all2_refl scanTouch_same)

lemma scanFrame_disk: "scanFrame fid fin st st' \<Longrightarrow> scanFrame fid fin st (st'\<lparr>disk := d\<rparr>)"
  by (simp add: scanFrame_def)

lemma updateFile_scanFrame:
  assumes "updateFile fid upd st = Inr st'"
    and "\<And>f. fileId (upd f) = fileId f \<and> driveSyncStatus (upd f) = driveSyncStatus f \<and>
              (virusScanStatus (upd f) = Clean \<longrightarrow> fin)"
  shows "scanFrame fid fin st st'"
proof -
  have "list_all2 (scanTouch fid fin) (files st)
          (map (\<lambda>f. if fileId f = fid then upd f else f) (files st))"
    by (rule list_all2_update) (simp_all add: scanTouch_def assms(2))
  then show ?thesis
    by (simp add: updateFile_rows [OF assms(1)] scanFrame_def)
qed

lemma scanCatch_scanFrame: "scanFrame fid fin st (scanCatch fid e st)"
proof (cases "updateFile fid (\<lambda>f. f\<lparr>virusScanStatus := ScanError, virusScanResult := Some e\<rparr>) st")
  case (Inl x)
  then show ?thesis
    by (simp add: scanCatch_def scanFrame_refl)
next
  case (Inr st')
  then have "scanFrame fid fin st st'"
    by (rule updateFile_scanFrame) simp
  with Inr show ?thesis
    by (simp add: scanCatch_def)
qed

lemma scanBegin_scanFrame:
  assumes "scanBegin fid path st = (pc, st')"
  shows "scanFrame fid (pc = ScanFinished) st st'"
proof (cases "updateFile fid (\<lambda>f. f\<lparr>virusScanStatus := Scanning\<rparr>) st")
  case (Inl e)
  with assms show ?thesis
    by (auto simp: scanBegin_def scanCatch_scanFrame)
next
  case (Inr st1)
  then have "scanFrame fid (pc = ScanFinished) st st1"
    by (rule updateFile_scanFrame) simp
  with assms Inr show ?thesis
    by (auto simp: scanBegin_def)
qed

lemma scanVerdict_scanFrame:
  assumes "scanVerdict fid path clam st = (pc, st')"
  shows "scanFrame fid (pc = ScanFinished) st st'"
proof (cases clam)
  case (ClamThrows e)
  with assms show ?thesis
    by (auto simp: scanVerdict_def scanCatch_scanFrame)
next
  case (ClamInfected virus)
  define upd :: "File \<Rightarrow> File" where "upd = (\<lambda>f. f\<lparr>virusScanStatus := Infected,
      virusScanResult := Some (case virus of None \<Rightarrow> ''Malware detected''
                                | Some v \<Rightarrow> if v = [] then ''Malware detected'' else v)\<rparr>)"
  show ?thesis
  proof (cases "updateFile fid upd st")
    case (Inl e)
    with assms ClamInfected show ?thesis
      by (auto simp: scanVerdict_def upd_def scanCatch_scanFrame)
  next
    case (Inr st1)
    then have "scanFrame fid (pc = ScanFinished) st st1"
      by (rule updateFile_scanFrame) (simp add: upd_def)
    with assms ClamInfected Inr show ?thesis
      by (auto simp: scanVerdict_def upd_def)
  qed
next
  case ClamClean
  define upd :: "File \<Rightarrow> File" where "upd = (\<lambda>f. f\<lparr>virusScanStatus := Clean,
      virusScanResult := Some ''No threats detected''\<rparr>)"
  show ?thesis
  proof (cases "updateFile fid upd st")
    case (Inl e)
    with assms ClamClean show ?thesis
      by (auto simp: scanVerdict_def upd_def scanCatch_scanFrame)
  next
    case (Inr st1)
    have pc: "pc = ScanFinished" and st': "st' = st1"
      using assms ClamClean Inr by (auto simp: scanVerdict_def upd_def)
    have "scanFrame fid True st st1"
      using Inr by (rule updateFile_scanFrame) (simp add: upd_def)
    then show ?thesis
      by (simp add: pc st')
  qed
qed

lemma scanUnlink_scanFrame:
  assumes "scanUnlink fid path fault st = (pc, st')"
  shows "scanFrame fid (pc = ScanFinished) st st'"
proof -
  obtain x st1 where u: "unlinkFile fault path st = (x, st1)"
    by (cases "unlinkFile fault path st")
  have a: "files st1 = files st" "driveSyncLogs st1 = driveSyncLogs st"
    using u by (auto simp: unlinkFile_def split: option.splits)
  have b: "scanFrame fid fin st1 (scanCatch fid e st1)" for fin e
    by (rule scanCatch_scanFrame)
  show ?thesis
    using assms u a b [of "pc = ScanFinished"]
    by (cases x) (auto simp: scanUnlink_def scanFrame_def list_all2_refl scanTouch_same)
qed

lemma statusFrame_refl: "statusFrame st st"
  by (simp add: statusFrame_def list_all2_refl keepsStatus_def)

lemma accept_rejected_frame:
  assumes "FileService_uploadFile env dto st = (Inl e, st')"
  shows "statusFrame st st'"
proof -
  have "files st' = files st \<and> driveSyncLogs st' = driveSyncLogs st"
    using assms
    by (auto simp: FileService_uploadFile_def writeFile_def createFile_def Let_def
             split: sum.splits prod.splits option.splits WriteOutcome.splits if_splits)
  then show ?thesis
    by (simp add: statusFrame_def list_all2_refl keepsStatus_def)
qed

lemma accept_ok_frame:
  assumes "FileService_uploadFile env dto st = (Inr f, st')"
  shows "files st' = files st @ [f]" and "driveSyncLogs st' = driveSyncLogs st"
    and "fileId f \<notin> set (map fileId (files st))"
    and "virusScanStatus f = ScanPending" and "driveSyncStatus f = PENDING"
  using assms
  by (auto simp: FileService_uploadFile_def writeFile_def createFile_def newFileRow_def Let_def
           split: sum.splits prod.splits option.splits WriteOutcome.splits if_splits)

lemma deleteFile_frame:
  assumes "deleteFile fid fault st = (r, st')"
  shows "statusFrame st st'"
proof (cases "findFile fid st")
  case None
  with assms show ?thesis
    by (simp add: deleteFile_def statusFrame_refl)
next
  case (Some f)
  show ?thesis
  proof (cases "updateFile fid (\<lambda>x. x\<lparr>deleted := True\<rparr>) st")
    case (Inl e)
    with assms Some show ?thesis
      by (simp add: deleteFile_def statusFrame_refl)
  next
    case (Inr st1)
    have "list_all2 keepsStatus (files st)
            (map (\<lambda>f. if fileId f = fid then f\<lparr>deleted := True\<rparr> else f) (files st))"
      by (rule list_all2_update) (simp_all add: keepsStatus_def)
    then have a: "statusFrame st st1"
      by (simp add: updateFile_rows [OF Inr] statusFrame_def)
    have "files st' = files st1 \<and> driveSyncLogs st' = driveSyncLogs st1"
      using assms Some Inr
      by (auto simp: deleteFile_def unlinkFile_def split: option.splits if_splits)
    with a show ?thesis
      by (simp add: statusFrame_def)
  qed
qed

lemma updateSubmission_files:
  "updateSubmission sid upd st = Inr st' \<Longrightarrow>
   files st' = files st \<and> driveSyncLogs st' = driveSyncLogs st"
  by (auto simp: updateSubmission_def split: if_splits)

lemma createSubmissionFolder_try_files:
  assumes "createSubmissionFolder_try rootFolderId year month sid refId st = (r, st')"
  shows "files st' = files st \<and> driveSyncLogs st' = driveSyncLogs st"
  using assms
  by (auto simp: createSubmissionFolder_try_def Let_def
           split: sum.splits prod.splits dest: updateSubmission_files)

lemma createSubmissionFolder_frame:
  assumes "createSubmissionFolder rootFolderId year month sid refId st = (r, st')"
  shows "statusFrame st st'"
proof -
  obtain t st1 where t: "createSubmissionFolder_try rootFolderId year month sid refId st = (t, st1)"
    by (cases "createSubmissionFolder_try rootFolderId year month sid refId st")
  have a: "files st1 = files st \<and> driveSyncLogs st1 = driveSyncLogs st"
    using t by (rule createSubmissionFolder_try_files)
  have "files st' = files st1 \<and> driveSyncLogs st' = driveSyncLogs st1"
    using assms t
    by (auto simp: createSubmissionFolder_def split: sum.splits dest: updateSubmission_files)
  with a show ?thesis
    by (simp add: statusFrame_def list_all2_refl keepsStatus_def)
qed

lemma retryDriveSync_frame:
  assumes "retryDriveSync fid st = (r, st')"
  shows "st' = st \<or>
         (syncFrame fid st st' \<and>
          (\<exists>f \<in> set (files st). fileId f = fid \<and> driveSyncStatus f = FAILED))"
proof (cases "findFile fid st")
  case None
  with assms show ?thesis
    by (simp add: retryDriveSync_def)
next
  case (Some f)
  then have f: "f \<in> set (files st)" "fileId f = fid"
    by (auto simp: findFile_def find_Some_iff)
  show ?thesis
  proof (cases "driveSyncStatus f = FAILED")
    case False
    with assms Some show ?thesis
      by (simp add: retryDriveSync_def)
  next
    case True
    obtain u st1 where u: "DriveService_uploadFile (optionsOf f) st = (u, st1)"
      by (cases "DriveService_uploadFile (optionsOf f) st")
    have "syncFrame fid st st1"
      using DriveService_uploadFile_syncFrame [OF u] f(2) by (simp add: optionsOf_def)
    moreover have "st' = st1"
      using assms Some True u
      by (auto simp: retryDriveSync_def retryFailedSync_def split: sum.splits)
    ultimately show ?thesis
      using f True by blast
  qed
qed

subsection \<open>Preservation of the invariant\<close>

lemma distinct_ids_unique:
  assumes "distinct (map fileId xs)" and "f \<in> set xs" and "g \<in> set xs"
    and "fileId f = fileId g"
  shows "f = g"
  using assms by (meson distinct_map inj_onD)

lemma hasCleanFile_unique:
  assumes "distinct (map fileId (files st))" and "hasCleanFile fid st"
    and "f \<in> set (files st)" and "fileId f = fid"
  shows "virusScanStatus f = Clean"
proof -
  from assms(2) obtain g where g: "g \<in> set (files st)" "fileId g = fid" "virusScanStatus g = Clean"
    by (auto simp: hasCleanFile_def)
  have "f = g"
    using assms(1,3) g(1) by (rule distinct_ids_unique) (simp add: assms(4) g(2))
  with g(3) show ?thesis
    by simp
qed

lemma gateInv_core:
  assumes inv: "gateInv S"
    and rows: "list_all2 (\<lambda>f f'. fileId f' = fileId f \<and> rowOk (scanPc S') f' \<and>
                   (virusScanStatus f = Clean \<longrightarrow> virusScanStatus f' = Clean))
                 (files (db S)) (files (db S'))"
    and sy: "\<forall>fid f0. syncPc S' fid = SyncCleared f0 \<longrightarrow> syncPc S fid = SyncCleared f0"
    and logs: "\<forall>l \<in> set (driveSyncLogs (db S')).
                 l \<in> set (driveSyncLogs (db S)) \<or> hasCleanFile (logFileId l) (db S)"
  shows "gateInv S'"
proof -
  have ids: "map fileId (files (db S')) = map fileId (files (db S))"
    using rows by (induction rule: list_all2_induct) simp_all
  have keep: "hasCleanFile fid (db S')" if "hasCleanFile fid (db S)" for fid
  proof -
    from that obtain f where f: "f \<in> set (files (db S))" "fileId f = fid" "virusScanStatus f = Clean"
      by (auto simp: hasCleanFile_def)
    from list_all2_left [OF rows f(1)] f(2,3) show ?thesis
      by (auto simp: hasCleanFile_def)
  qed
  have a: "distinct (map fileId (files (db S')))"
    using inv by (simp add: ids gateInv_def)
  have b: "\<forall>f \<in> set (files (db S')). rowOk (scanPc S') f"
    using list_all2_right [OF rows] by blast
  have c: "\<forall>fid f0. syncPc S' fid = SyncCleared f0 \<longrightarrow> fileId f0 = fid \<and> hasCleanFile fid (db S')"
  proof (intro allI impI)
    fix fid f0
    assume "syncPc S' fid = SyncCleared f0"
    with sy have "syncPc S fid = SyncCleared f0"
      by blast
    with inv have "fileId f0 = fid" and "hasCleanFile fid (db S)"
      by (simp_all add: gateInv_def)
    then show "fileId f0 = fid \<and> hasCleanFile fid (db S')"
      by (simp add: keep)
  qed
  have d: "\<forall>l \<in> set (driveSyncLogs (db S')). hasCleanFile (logFileId l) (db S')"
  proof
    fix l
    assume "l \<in> set (driveSyncLogs (db S'))"
    with logs have "l \<in> set (driveSyncLogs (db S)) \<or> hasCleanFile (logFileId l) (db S)"
      by blast
    with inv have "hasCleanFile (logFileId l) (db S)"
      by (auto simp: gateInv_def)
    then show "hasCleanFile (logFileId l) (db S')"
      by (rule keep)
  qed
  show ?thesis
    using a b c d by (simp add: gateInv_def)
qed

lemma gateInv_scan_step:
  assumes inv: "gateInv S" and pc: "scanPc S fid \<noteq> ScanFinished"
    and fr: "scanFrame fid (pc' = ScanFinished) (db S) st'"
  shows "gateInv (S\<lparr>db := st', scanPc := (scanPc S)(fid := pc')\<rparr>)"
proof (rule gateInv_core [OF inv])
  let ?S' = "S\<lparr>db := st', scanPc := (scanPc S)(fid := pc')\<rparr>"
  have old: "rowOk (scanPc S) f" if "f \<in> set (files (db S))" for f
    using inv that by (simp add: gateInv_def)
  have "list_all2 (scanTouch fid (pc' = ScanFinished)) (files (db S)) (files st')"
    using fr by (simp add: scanFrame_def)
  then have "list_all2 (\<lambda>f f'. fileId f' = fileId f \<and> rowOk ((scanPc S)(fid := pc')) f' \<and>
                   (virusScanStatus f = Clean \<longrightarrow> virusScanStatus f' = Clean))
                 (files (db S)) (files st')"
  proof (rule list.rel_mono_strong)
    fix f f'
    assume f: "f \<in> set (files (db S))" and t: "scanTouch fid (pc' = ScanFinished) f f'"
    show "fileId f' = fileId f \<and> rowOk ((scanPc S)(fid := pc')) f' \<and>
            (virusScanStatus f = Clean \<longrightarrow> virusScanStatus f' = Clean)"
    proof (cases "fileId f = fid")
      case False
      with t have "f' = f"
        by (simp add: scanTouch_def)
      with old [OF f] False show ?thesis
        by (simp add: rowOk_def)
    next
      case True
      with old [OF f] pc have "virusScanStatus f \<noteq> Clean" and "driveSyncStatus f = PENDING"
        by (auto simp: rowOk_def)
      with t True show ?thesis
        by (auto simp: scanTouch_def rowOk_def)
    qed
  qed
  then show "list_all2 (\<lambda>f f'. fileId f' = fileId f \<and> rowOk (scanPc ?S') f' \<and>
                   (virusScanStatus f = Clean \<longrightarrow> virusScanStatus f' = Clean))
                 (files (db S)) (files (db ?S'))"
    by simp
  show "\<forall>x f0. syncPc ?S' x = SyncCleared f0 \<longrightarrow> syncPc S x = SyncCleared f0"
    by simp
  show "\<forall>l \<in> set (driveSyncLogs (db ?S')).
          l \<in> set (driveSyncLogs (db S)) \<or> hasCleanFile (logFileId l) (db S)"
    using fr by (simp add: scanFrame_def)
qed

lemma gateInv_sync_call:
  assumes inv: "gateInv S" and fr: "syncFrame fid (db S) st'"
    and clean: "hasCleanFile fid (db S)"
    and sy: "\<forall>x f0. sy' x = SyncCleared f0 \<longrightarrow> syncPc S x = SyncCleared f0"
  shows "gateInv (S\<lparr>db := st', syncPc := sy'\<rparr>)"
proof (rule gateInv_core [OF inv])
  let ?S' = "S\<lparr>db := st', syncPc := sy'\<rparr>"
  have old: "rowOk (scanPc S) f" if "f \<in> set (files (db S))" for f
    using inv that by (simp add: gateInv_def)
  have dist: "distinct (map fileId (files (db S)))"
    using inv by (simp add: gateInv_def)
  have "list_all2 (syncTouch fid) (files (db S)) (files st')"
    using fr by (simp add: syncFrame_def)
  then have "list_all2 (\<lambda>f f'. fileId f' = fileId f \<and> rowOk (scanPc S) f' \<and>
                   (virusScanStatus f = Clean \<longrightarrow> virusScanStatus f' = Clean))
                 (files (db S)) (files st')"
  proof (rule list.rel_mono_strong)
    fix f f'
    assume f: "f \<in> set (files (db S))" and t: "syncTouch fid f f'"
    show "fileId f' = fileId f \<and> rowOk (scanPc S) f' \<and>
            (virusScanStatus f = Clean \<longrightarrow> virusScanStatus f' = Clean)"
    proof (cases "fileId f = fid")
      case False
      with t have "f' = f"
        by (simp add: syncTouch_def)
      with old [OF f] show ?thesis
        by simp
    next
      case True
      have "virusScanStatus f = Clean"
        using dist clean f True by (rule hasCleanFile_unique)
      with old [OF f] t show ?thesis
        by (auto simp: syncTouch_def sameOutsideSync_def rowOk_def)
    qed
  qed
  then show "list_all2 (\<lambda>f f'. fileId f' = fileId f \<and> rowOk (scanPc ?S') f' \<and>
                   (virusScanStatus f = Clean \<longrightarrow> virusScanStatus f' = Clean))
                 (files (db S)) (files (db ?S'))"
    by simp
  show "\<forall>x f0. syncPc ?S' x = SyncCleared f0 \<longrightarrow> syncPc S x = SyncCleared f0"
    using sy by simp
  show "\<forall>l \<in> set (driveSyncLogs (db ?S')).
          l \<in> set (driveSyncLogs (db S)) \<or> hasCleanFile (logFileId l) (db S)"
    using fr clean by (auto simp: syncFrame_def)
qed

lemma gateInv_status_frame:
  assumes inv: "gateInv S" and fr: "statusFrame (db S) st'"
  shows "gateInv (S\<lparr>db := st'\<rparr>)"
proof (rule gateInv_core [OF inv])
  let ?S' = "S\<lparr>db := st'\<rparr>"
  have old: "rowOk (scanPc S) f" if "f \<in> set (files (db S))" for f
    using inv that by (simp add: gateInv_def)
  have "list_all2 keepsStatus (files (db S)) (files st')"
    using fr by (simp add: statusFrame_def)
  then have "list_all2 (\<lambda>f f'. fileId f' = fileId f \<and> rowOk (scanPc S) f' \<and>
                   (virusScanStatus f = Clean \<longrightarrow> virusScanStatus f' = Clean))
                 (files (db S)) (files st')"
  proof (rule list.rel_mono_strong)
    fix f f'
    assume "f \<in> set (files (db S))" and "keepsStatus f f'"
    with old [of f]
    show "fileId f' = fileId f \<and> rowOk (scanPc S) f' \<and>
            (virusScanStatus f = Clean \<longrightarrow> virusScanStatus f' = Clean)"
      by (simp add: keepsStatus_def rowOk_def)
  qed
  then show "list_all2 (\<lambda>f f'. fileId f' = fileId f \<and> rowOk (scanPc ?S') f' \<and>
                   (virusScanStatus f = Clean \<longrightarrow> virusScanStatus f' = Clean))
                 (files (db S)) (files (db ?S'))"
    by simp
  show "\<forall>x f0. syncPc ?S' x = SyncCleared f0 \<longrightarrow> syncPc S x = SyncCleared f0"
    by simp
  show "\<forall>l \<in> set (driveSyncLogs (db ?S')).
          l \<in> set (driveSyncLogs (db S)) \<or> hasCleanFile (logFileId l) (db S)"
    using fr by (simp add: statusFrame_def)
qed

lemma gateInv_sync_read:
  assumes inv: "gateInv S"
    and pc: "\<And>f0. pc' = SyncCleared f0 \<Longrightarrow> fileId f0 = fid \<and> hasCleanFile fid (db S)"
  shows "gateInv (S\<lparr>syncPc := (syncPc S)(fid := pc')\<rparr>)"
  using inv pc by (auto simp: gateInv_def)

lemma syncRefetch_cleared:
  assumes "syncRefetch (findFile fid st) = SyncCleared f0"
  shows "fileId f0 = fid \<and> hasCleanFile fid st"
proof -
  from assms have "findFile fid st = Some f0" and c: "virusScanStatus f0 = Clean"
    by (auto simp: syncRefetch_def split: option.splits if_splits)
  then have "f0 \<in> set (files st)" and "fileId f0 = fid"
    by (auto simp: findFile_def find_Some_iff)
  with c show ?thesis
    by (auto simp: hasCleanFile_def)
qed

lemma gateInv_accept:
  assumes inv: "gateInv S"
    and up: "FileService_uploadFile env dto (db S) = (Inr f, st')"
  shows "gateInv (S\<lparr>db := st',
                    scanPc := (scanPc S)(fileId f := ScanQueued (filePath f)),
                    syncPc := (syncPc S)(fileId f := SyncQueued)\<rparr>)"
proof -
  note fr = accept_ok_frame [OF up]
  define S' where
    "S' = S\<lparr>db := st',
            scanPc := (scanPc S)(fileId f := ScanQueued (filePath f)),
            syncPc := (syncPc S)(fileId f := SyncQueued)\<rparr>"
  have sel: "db S' = st'"
    "scanPc S' = (scanPc S)(fileId f := ScanQueued (filePath f))"
    "syncPc S' = (syncPc S)(fileId f := SyncQueued)"
    by (simp_all add: S'_def)
  have fresh: "fileId g \<noteq> fileId f" if "g \<in> set (files (db S))" for g
  proof
    assume eq: "fileId g = fileId f"
    from that have "fileId g \<in> fileId ` set (files (db S))"
      by (rule imageI)
    with fr(3) eq show False
      by simp
  qed
  have keep: "hasCleanFile x (db S')" if "hasCleanFile x (db S)" for x
    using that by (auto simp: hasCleanFile_def fr(1) sel(1))
  have a: "distinct (map fileId (files (db S')))"
    using inv fr(3) by (simp add: gateInv_def fr(1) sel(1))
  have b: "\<forall>g \<in> set (files (db S')). rowOk (scanPc S') g"
  proof
    fix g
    assume "g \<in> set (files (db S'))"
    then consider "g \<in> set (files (db S))" | "g = f"
      by (auto simp: fr(1) sel(1))
    then show "rowOk (scanPc S') g"
    proof cases
      case 1
      then have "rowOk (scanPc S) g"
        using inv by (simp add: gateInv_def)
      with fresh [OF 1] show ?thesis
        by (simp add: rowOk_def sel(2))
    next
      case 2
      with fr(4,5) show ?thesis
        by (simp add: rowOk_def)
    qed
  qed
  have c: "\<forall>x f0. syncPc S' x = SyncCleared f0 \<longrightarrow> fileId f0 = x \<and> hasCleanFile x (db S')"
  proof (intro allI impI)
    fix x f0
    assume "syncPc S' x = SyncCleared f0"
    then have "syncPc S x = SyncCleared f0"
      by (simp add: sel(3) split: if_splits)
    with inv have "fileId f0 = x" and "hasCleanFile x (db S)"
      by (simp_all add: gateInv_def)
    then show "fileId f0 = x \<and> hasCleanFile x (db S')"
      by (simp add: keep)
  qed
  have d: "\<forall>l \<in> set (driveSyncLogs (db S')). hasCleanFile (logFileId l) (db S')"
  proof
    fix l
    assume "l \<in> set (driveSyncLogs (db S'))"
    then have "l \<in> set (driveSyncLogs (db S))"
      by (simp add: fr(2) sel(1))
    with inv have "hasCleanFile (logFileId l) (db S)"
      by (simp add: gateInv_def)
    then show "hasCleanFile (logFileId l) (db S')"
      by (rule keep)
  qed
  have "gateInv S'"
    unfolding gateInv_def by (intro conjI a b c d)
  then show ?thesis
    by (simp only: S'_def)
qed

lemma initial_gateInv: "initial S \<Longrightarrow> gateInv S"
  by (simp add: initial_def gateInv_def)

lemma step_gateInv:
  assumes "step S S'" and "gateInv S"
  shows "gateInv S'"
  using assms
proof (induction rule: step.induct)
  case (accept_ok env dto S f st')
  then show ?case by (simp add: gateInv_accept)
next
  case (accept_rejected env dto S e st')
  then show ?case by (simp add: gateInv_status_frame accept_rejected_frame)
next
  case (scan_begin S fid path pc st')
  then show ?case by (simp add: gateInv_scan_step scanBegin_scanFrame)
next
  case (scan_verdict S fid path clam pc st')
  then show ?case by (simp add: gateInv_scan_step scanVerdict_scanFrame)
next
  case (scan_unlink S fid path fault pc st')
  then show ?case by (simp add: gateInv_scan_step scanUnlink_scanFrame)
next
  case (sync_first_read S fid)
  then show ?case
    by (intro gateInv_sync_read) (simp_all add: syncFirstRead_def split: option.splits if_splits)
next
  case (sync_poll S fid i)
  then show ?case
    by (intro gateInv_sync_read) (simp_all add: syncPoll_def split: if_splits)
next
  case (sync_refetch S fid)
  then show ?case
    by (intro gateInv_sync_read) (simp_all add: syncRefetch_cleared)
next
  case (sync_upload S fid f r st')
  have id: "fileId f = fid" and clean: "hasCleanFile fid (db S)"
    using sync_upload.prems sync_upload.hyps(1) by (auto simp: gateInv_def)
  have "syncFrame fid (db S) st'"
    using DriveService_uploadFile_syncFrame [OF sync_upload.hyps(2)] id
    by (simp add: optionsOf_def)
  then show ?case
    using sync_upload.prems clean by (intro gateInv_sync_call) simp_all
next
  case (retry fid S r st')
  from retryDriveSync_frame [OF retry.hyps] show ?case
  proof
    assume "st' = db S"
    with retry.prems show ?thesis by simp
  next
    assume a: "syncFrame fid (db S) st' \<and>
          (\<exists>f \<in> set (files (db S)). fileId f = fid \<and> driveSyncStatus f = FAILED)"
    then obtain f where f: "f \<in> set (files (db S))" "fileId f = fid" "driveSyncStatus f = FAILED"
      by blast
    then have "virusScanStatus f = Clean"
      using retry.prems by (auto simp: gateInv_def rowOk_def)
    with f have "hasCleanFile fid (db S)"
      by (auto simp: hasCleanFile_def)
    with a retry.prems have "gateInv (S\<lparr>db := st', syncPc := syncPc S\<rparr>)"
      by (intro gateInv_sync_call) simp_all
    then show ?thesis by simp
  qed
next
  case (delete fid fault S r st')
  then show ?case by (simp add: gateInv_status_frame deleteFile_frame)
next
  case (provision rootFolderId year month sid refId S r st')
  then show ?case by (simp add: gateInv_status_frame createSubmissionFolder_frame)
next
  case (submission_created S new)
  then show ?case
    by (intro gateInv_status_frame) (simp_all add: statusFrame_def list_all2_refl keepsStatus_def)
next
  case (environment S lf df adm)
  then show ?case
    by (intro gateInv_status_frame) (simp_all add: statusFrame_def list_all2_refl keepsStatus_def)
qed

lemma reachable_gateInv: "reachable S \<Longrightarrow> gateInv S"
  by (induction rule: reachable.induct) (simp_all add: initial_gateInv step_gateInv)

subsection \<open>A run that reaches SYNCED\<close>

lemma noteRow_fields:
  "fileId noteRow = ''f5''" "filePath noteRow = ''/uploads/u5.txt''"
  "submissionId noteRow = ''sub-1''"
  by (simp_all add: noteRow_def)

lemma scannedNote_fields:
  "fileId scannedNote = ''f5''" "filePath scannedNote = ''/uploads/u5.txt''"
  "submissionId scannedNote = ''sub-1''" "virusScanStatus scannedNote = Clean"
  by (simp_all add: scannedNote_def noteRow_def)

lemma pipelineBase_fields:
  "files pipelineBase = []" "driveSyncLogs pipelineBase = []"
  "submissions pipelineBase = [provisionedSub]" "faults (drive pipelineBase) = []"
  by (simp_all add: pipelineBase_def emptyState_def emptyDrive_def)

lemma pipeline_upload:
  "FileService_uploadFile okEnv noteDto pipelineBase =
     (Inr noteRow,
      pipelineBase\<lparr>disk := (disk pipelineBase)(''/uploads/u5.txt'' \<mapsto> ''x''),
                    files := [noteRow]\<rparr>)"
proof -
  have a: "validateFileCount (files pipelineBase) (dtoSubmissionId noteDto) = Inr ()"
    by (simp add: pipelineBase_fields validateFileCount_def liveFilesOf_def
          MAX_FILES_PER_SUBMISSION_def)
  have b: "validateFileSize (length (dtoBuffer noteDto)) = Inr ()"
    using note_size by (simp add: noteDto_def)
  have c: "validateMimeType (dtoMimeType noteDto) = Inr ()"
    using plain_mime by (simp add: noteDto_def)
  have d: "writeOutcome okEnv = WriteOk"
    by (simp add: okEnv_def)
  have e: "\<forall>f \<in> set (files pipelineBase). fileId f \<noteq> newFileId okEnv"
    by (simp add: pipelineBase_fields)
  have f: "dtoBuffer noteDto = ''x''"
    by (simp add: noteDto_def)
  show ?thesis
    using FileService_uploadFile_accepts [OF a b c d e]
    by (simp add: note_row noteRow_fields f pipelineBase_fields)
qed

lemma pipeline1_db:
  "db pipeline1 =
     pipelineBase\<lparr>disk := (disk pipelineBase)(''/uploads/u5.txt'' \<mapsto> ''x''),
                   files := [noteRow]\<rparr>"
  by (simp add: pipeline1_def pipeline0_def pipeline_upload)

lemma pipeline2_step:
  "scanBegin ''f5'' ''/uploads/u5.txt'' (db pipeline1) =
     (ScanAwaitResult ''/uploads/u5.txt'',
      (db pipeline1)\<lparr>files := [noteRow\<lparr>virusScanStatus := Scanning\<rparr>]\<rparr>)"
  by (simp add: scanBegin_def updateFile_def pipeline1_db noteRow_fields)

lemma pipeline2_db:
  "db pipeline2 = (db pipeline1)\<lparr>files := [noteRow\<lparr>virusScanStatus := Scanning\<rparr>]\<rparr>"
  by (simp add: pipeline2_def pipeline2_step)

lemma pipeline3_step:
  "scanVerdict ''f5'' ''/uploads/u5.txt'' ClamClean (db pipeline2) =
     (ScanFinished, (db pipeline1)\<lparr>files := [scannedNote]\<rparr>)"
  by (simp add: scanVerdict_def updateFile_def pipeline2_db noteRow_fields scannedNote_def)

lemma pipeline3_db: "db pipeline3 = (db pipeline1)\<lparr>files := [scannedNote]\<rparr>"
  by (simp add: pipeline3_def pipeline3_step)

lemma pipeline_find: "findFile ''f5'' (db pipeline3) = Some scannedNote"
  by (simp add: findFile_def pipeline3_db scannedNote_fields)

lemma pipeline_scanPc:
  "scanPc pipeline1 ''f5'' = ScanQueued ''/uploads/u5.txt''"
  "scanPc pipeline2 ''f5'' = ScanAwaitResult ''/uploads/u5.txt''"
proof -
  show "scanPc pipeline1 ''f5'' = ScanQueued ''/uploads/u5.txt''"
    by (simp add: pipeline1_def noteRow_fields)
  show "scanPc pipeline2 ''f5'' = ScanAwaitResult ''/uploads/u5.txt''"
    unfolding pipeline2_def by (simp add: pipeline2_step)
qed

lemma pipeline_syncPc3: "syncPc pipeline3 ''f5'' = SyncQueued"
proof -
  have "syncPc pipeline3 = syncPc pipeline1"
    by (simp add: pipeline3_def pipeline2_def)
  then show ?thesis
    by (simp add: pipeline1_def noteRow_fields)
qed

lemma pipeline_dbs: "db pipeline4 = db pipeline3" "db pipeline5 = db pipeline3"
  by (simp_all add: pipeline4_def pipeline5_def)

lemma pipeline_syncPc4: "syncPc pipeline4 ''f5'' = SyncRefetch"
  unfolding pipeline4_def
  by (simp add: pipeline_find syncFirstRead_def scannedNote_fields awaitsScan_def)

lemma pipeline_syncPc5: "syncPc pipeline5 ''f5'' = SyncCleared scannedNote"
  unfolding pipeline5_def
  by (simp add: pipeline_dbs pipeline_find syncRefetch_def scannedNote_fields)

lemma pipeline_reachable: "reachable pipeline6"
proof -
  have r0: "reachable pipeline0"
    by (rule reachable_init)
       (simp add: initial_def pipeline0_def pipelineBase_fields)
  have "FileService_uploadFile okEnv noteDto (db pipeline0) =
          (Inr noteRow, snd (FileService_uploadFile okEnv noteDto (db pipeline0)))"
    by (simp add: pipeline0_def pipeline_upload)
  then have "step pipeline0 pipeline1"
    unfolding pipeline1_def by (rule accept_ok)
  with r0 have r1: "reachable pipeline1"
    by (rule reachable_step)
  have "step pipeline1 pipeline2"
    unfolding pipeline2_def by (rule scan_begin [OF pipeline_scanPc(1)]) simp
  with r1 have r2: "reachable pipeline2"
    by (rule reachable_step)
  have "step pipeline2 pipeline3"
    unfolding pipeline3_def by (rule scan_verdict [OF pipeline_scanPc(2)]) simp
  with r2 have r3: "reachable pipeline3"
    by (rule reachable_step)
  have "step pipeline3 pipeline4"
    unfolding pipeline4_def by (rule sync_first_read [OF pipeline_syncPc3])
  with r3 have r4: "reachable pipeline4"
    by (rule reachable_step)
  have "step pipeline4 pipeline5"
    unfolding pipeline5_def by (rule sync_refetch [OF pipeline_syncPc4])
  with r4 have r5: "reachable pipeline5"
    by (rule reachable_step)
  have "step pipeline5 pipeline6"
    unfolding pipeline6_def by (rule sync_upload [OF pipeline_syncPc5]) (rule prod.collapse [symmetric])
  with r5 show ?thesis
    by (rule reachable_step)
qed

lemma pipeline_synced:
  "map fileId (files (db pipeline6)) = [''f5'']"
  "\<forall>f \<in> set (files (db pipeline6)). fileId f = ''f5'' \<longrightarrow> driveSyncStatus f = SYNCED"
proof -
  let ?st = "db pipeline5"
  let ?opts = "optionsOf scannedNote"
  have o: "optFileId ?opts = ''f5''" "optSubmissionId ?opts = ''sub-1''"
    "optFilePath ?opts = ''/uploads/u5.txt''"
    by (simp_all add: optionsOf_def scannedNote_fields)
  have st: "files ?st = [scannedNote]" "faults (drive ?st) = []"
    "disk ?st ''/uploads/u5.txt'' = Some ''x''" "submissions ?st = [provisionedSub]"
    by (simp_all add: pipeline_dbs pipeline3_db pipeline1_db pipelineBase_fields)
  have h: "hasFile (optFileId ?opts) ?st"
    by (simp add: hasFile_def o st scannedNote_fields)
  have folder: "submissionFolder (optSubmissionId ?opts) ?st = Some ''folder-1''"
    by (simp add: submissionFolder_def findSubmission_def o st provisionedSub_def)
  have k: "(1::nat) \<le> maxRetries"
    by (simp add: maxRetries_def)
  have d: "disk ?st (optFilePath ?opts) = Some ''x''"
    by (simp add: o st)
  from success_round [OF h st(2) d k, of "''folder-1''" None] obtain res st' where
    run: "uploadAttempts ?opts ''folder-1'' 1 None ?st = (Inr res, st')" and
    rows: "\<forall>f \<in> set (files st'). fileId f = optFileId ?opts \<longrightarrow>
             driveSyncStatus f = SYNCED \<and> driveSyncAttempts f = 1 \<and>
             driveSyncError f = None \<and> googleDriveId f = Some (resFileId res)"
    by blast
  have u: "DriveService_uploadFile ?opts ?st = (Inr res, st')"
    using folder run by (simp add: DriveService_uploadFile_def)
  have db6: "db pipeline6 = st'"
    by (simp add: pipeline6_def u)
  have "syncFrame (optFileId ?opts) ?st st'"
    using u by (rule DriveService_uploadFile_syncFrame)
  then show "map fileId (files (db pipeline6)) = [''f5'']"
    by (simp add: db6 syncFrame_ids st scannedNote_fields)
  show "\<forall>f \<in> set (files (db pipeline6)). fileId f = ''f5'' \<longrightarrow> driveSyncStatus f = SYNCED"
    using rows by (simp add: db6 o)
qed

text \<open>
  C1. In every state the pipeline can reach, a file whose syncStatus has left PENDING
  has scanStatus CLEAN. Put the other way round: while a file's scan is pending, running,
  INFECTED or ERROR, its syncStatus is PENDING and the sync ledger holds no row for it, so
  no sync was performed. The states are those reached by any interleaving of upload
  acceptance, the pieces of the scan and sync tasks, manual retry, deletion, folder
  provisioning and changes of the environment; none of them resets a scan.
\<close>

theorem sync_only_after_clean_scan:
  assumes "reachable S" and "f \<in> set (files (db S))"
  shows "(driveSyncStatus f \<noteq> PENDING \<longrightarrow> virusScanStatus f = Clean) \<and>
         (virusScanStatus f \<noteq> Clean \<longrightarrow>
            driveSyncStatus f = PENDING \<and>
            (\<forall>l \<in> set (driveSyncLogs (db S)). logFileId l \<noteq> fileId f))"
proof -
  have inv: "gateInv S"
    using assms(1) by (rule reachable_gateInv)
  then have row: "rowOk (scanPc S) f"
    using assms(2) by (simp add: gateInv_def)
  have dist: "distinct (map fileId (files (db S)))"
    using inv by (simp add: gateInv_def)
  have "logFileId l \<noteq> fileId f"
    if l: "l \<in> set (driveSyncLogs (db S))" and nc: "virusScanStatus f \<noteq> Clean" for l
  proof
    assume eq: "logFileId l = fileId f"
    from inv l have "hasCleanFile (logFileId l) (db S)"
      by (simp add: gateInv_def)
    then have "virusScanStatus f = Clean"
      using dist assms(2) eq by (intro hasCleanFile_unique [of "db S" "logFileId l"]) simp_all
    with nc show False
      by simp
  qed
  with row show ?thesis
    by (auto simp: rowOk_def)
qed

theorem sync_only_after_clean_scan_witness:
  "reachable pipeline6 \<and>
   map driveSyncStatus (files (db pipeline6)) = [SYNCED] \<and>
   map virusScanStatus (files (db pipeline6)) = [Clean]"
proof -
  from pipeline_synced(1) obtain f where f: "files (db pipeline6) = [f]" "fileId f = ''f5''"
    by auto
  then have s: "driveSyncStatus f = SYNCED"
    using pipeline_synced(2) by simp
  have "f \<in> set (files (db pipeline6))"
    by (simp add: f(1))
  from sync_only_after_clean_scan [OF pipeline_reachable this] s
  have "virusScanStatus f = Clean"
    by simp
  with s f(1) pipeline_reachable show ?thesis
    by simp
qed


end
